theory Spec2Isabelle
  imports Main
begin

section \<open>The request gate of \<open>flask_restframework/views.py\<close>\<close>

text \<open>
  \<open>APIView\<close> runs three steps before the body of a request handler
  (\<open>initial\<close>: authenticate, check permissions, check throttles) and turns every
  exception of these steps into a response (\<open>dispatch_request\<close>,
  \<open>handle_exception\<close>). The steps call pluggable strategy objects. The model below
  follows the Python text function by function:

  \<^item> an attribute that an object may lack is an \<open>attr\<close>: \<open>Unset\<close> where
    reading it raises \<open>AttributeError\<close> (or where \<open>getattr\<close> takes its default),
    \<open>Val v\<close> where it holds \<open>v\<close>;
  \<^item> a raised exception is the \<open>Inl\<close> of a sum; the state reached when it is raised
    is returned beside it, since Python keeps the mutations made before a raise;
  \<^item> a strategy method is a function of the ambient state (\<open>flask.g\<close> and whatever
    else the strategy reads and writes) that returns its result and the new ambient
    state;
  \<^item> every call of a strategy method, of the exception handler and of the handler body
    appends one event to \<open>calls\<close>, in the manner of a recording mock. The source has no
    such list: it is there so that "is called" and "is never called" can be stated.
\<close>

subsection \<open>Values\<close>

datatype 'a attr = Unset | Val 'a

text \<open>
  The module \<open>exceptions\<close> is imported by the source and is not part of it.

  Modelled from the spec: the exception classes of the missing module \<open>exceptions\<close>.
  \<open>NotAuthenticated\<close>, \<open>PermissionDenied\<close> (with \<open>detail\<close> and \<open>code\<close>) and
  \<open>Throttled\<close> (with the duration it is constructed from) are API exceptions, as is
  whatever API exception an authenticator raises (\<open>AuthenticationFailed\<close>, with its
  detail). An API exception carries the attribute \<open>auth_header\<close> once the view has
  assigned it. The other constructors are Python's own \<open>AttributeError\<close> and
  \<open>TypeError\<close>, and any further subclass of \<open>Exception\<close> a strategy may raise.
\<close>

datatype 'd api_exception =
    AuthenticationFailed string
  | NotAuthenticated
  | PermissionDenied "string option" "string option"
  | Throttled "'d option"

datatype 'd exception =
    APIException "'d api_exception" "string option attr"
  | AttributeError string
  | TypeError string
  | OtherException string

text \<open>
  The ambient state: \<open>g.current_user\<close> of Flask's application context, and the rest
  of what strategies can reach (\<open>external\<close>: request, caches, counters).
\<close>

record 'x world =
  g_current_user :: "string option attr"
  external :: 'x

subsection \<open>Strategy objects and configuration\<close>

text \<open>
  \<open>authenticate()\<close> returns a \<open>(user, credentials)\<close> tuple or \<open>None\<close>, or raises.
  The classes in the configured lists are called without arguments to make the
  instances (\<open>auth()\<close>, \<open>permission()\<close>); a class is modelled by the instance its
  constructor yields. \<open>message\<close> and \<open>code\<close> are read with
  \<open>getattr(permission, ..., None)\<close>: \<open>None\<close> stands for a missing attribute as well.
\<close>

datatype 'd auth_result = Returns "(string \<times> string) option" | Raises "'d exception"

record ('x, 'd) authenticator =
  authenticate :: "'x world \<Rightarrow> 'd auth_result \<times> 'x world"
  authenticate_header :: string

record 'x permission =
  has_permission :: "'x world \<Rightarrow> bool \<times> 'x world"
  message :: "string option"
  code :: "string option"

record ('x, 'd) throttle =
  allow_request :: "'x world \<Rightarrow> bool \<times> 'x world"
  wait :: "'x world \<Rightarrow> 'd \<times> 'x world"

text \<open>
  An entry of \<open>throttle_handlers\<close> is a dict read with \<open>.get("class")\<close> and
  \<open>.get("rate")\<close>: a missing key reads as \<open>None\<close>.
\<close>

record ('x, 'd) throttle_handler =
  throttle_class :: "(string option \<Rightarrow> ('x, 'd) throttle) option"
  throttle_rate :: "string option"

text \<open>\<open>current_app\<close>: the process-wide configuration, every attribute optional.\<close>

record ('x, 'd, 'r) app =
  AUTHENTICATION_CLASSES :: "('x, 'd) authenticator list attr"
  PERMISSION_CLASSES :: "'x permission list attr"
  THROTTLE_HANDLERS :: "('x, 'd) throttle_handler list attr"
  EXCEPTION_HANDLER :: "('d exception \<Rightarrow> 'r) attr"

text \<open>
  The view object \<open>self\<close>: the three class attributes (view-level lists, \<open>[]\<close> in
  \<open>APIView\<close> itself) and the three instance attributes the methods assign.
\<close>

record ('x, 'd) view =
  authentication_classes :: "('x, 'd) authenticator list"
  permission_classes :: "'x permission list"
  throttle_handlers :: "('x, 'd) throttle_handler list"
  authenticators :: "('x, 'd) authenticator list attr"
  successful_authenticated :: "bool attr"
  authenticator :: "('x, 'd) authenticator attr"

datatype ('x, 'd) event =
    CallAuthenticate "('x, 'd) authenticator" "'d auth_result"
  | CallHasPermission "'x permission" bool
  | CallAllowRequest "('x, 'd) throttle" bool
  | CallWait "('x, 'd) throttle" 'd
  | CallExceptionHandler "'d exception"
  | CallHandlerBody

record ('x, 'd) state =
  self :: "('x, 'd) view"
  world :: "'x world"
  calls :: "('x, 'd) event list"

subsection \<open>Resolving the policy lists\<close>

definition get_authenticators ::
  "('x, 'd, 'r) app \<Rightarrow> ('x, 'd) state \<Rightarrow> ('x, 'd) authenticator list \<times> ('x, 'd) state" where
  "get_authenticators current_app s =
     (let global_auth_config =
            (case AUTHENTICATION_CLASSES current_app of Unset \<Rightarrow> [] | Val cs \<Rightarrow> cs);
          auths = (if authentication_classes (self s) \<noteq> [] then authentication_classes (self s)
                   else global_auth_config)
      in (auths, s\<lparr>self := (self s)\<lparr>authenticators := Val auths\<rparr>\<rparr>))"

definition get_permissions ::
  "('x, 'd, 'r) app \<Rightarrow> ('x, 'd) state \<Rightarrow> 'x permission list" where
  "get_permissions current_app s =
     (let global_perm_config =
            (case PERMISSION_CLASSES current_app of Unset \<Rightarrow> [] | Val cs \<Rightarrow> cs)
      in if permission_classes (self s) \<noteq> [] then permission_classes (self s)
         else global_perm_config)"

fun get_throttles_loop ::
  "('x, 'd) throttle_handler list \<Rightarrow> ('x, 'd) throttle list \<Rightarrow> 'd exception + ('x, 'd) throttle list" where
  "get_throttles_loop [] throttling_handlers = Inr throttling_handlers"
| "get_throttles_loop (h # hs) throttling_handlers =
     (case throttle_class h of
        None \<Rightarrow> Inl (TypeError '''NoneType' object is not callable'')
      | Some c \<Rightarrow> get_throttles_loop hs (throttling_handlers @ [c (throttle_rate h)]))"

definition get_throttles ::
  "('x, 'd, 'r) app \<Rightarrow> ('x, 'd) state \<Rightarrow> 'd exception + ('x, 'd) throttle list" where
  "get_throttles current_app s =
     (let global_thro_config =
            (case THROTTLE_HANDLERS current_app of Unset \<Rightarrow> [] | Val hs \<Rightarrow> hs)
      in get_throttles_loop
           (if throttle_handlers (self s) \<noteq> [] then throttle_handlers (self s)
            else global_thro_config) [])"

subsection \<open>Authentication\<close>

text \<open>
  The \<open>for\<close> loop of \<open>perform_authentication\<close> with what follows it: \<open>return\<close> leaves
  the method from inside the loop, so \<open>g.current_user = None\<close> runs exactly when the
  list is exhausted. An \<open>APIException\<close> is caught, gets the authenticator's header
  and is raised again; any other exception passes through.
\<close>

fun perform_authentication_loop ::
  "('x, 'd) authenticator list \<Rightarrow> ('x, 'd) state \<Rightarrow> ('d exception + unit) \<times> ('x, 'd) state" where
  "perform_authentication_loop [] s =
     (Inr (), s\<lparr>world := (world s)\<lparr>g_current_user := Val None\<rparr>\<rparr>)"
| "perform_authentication_loop (a # as) s =
     (case authenticate a (world s) of
        (user_auth_tuple, w) \<Rightarrow>
          let s1 = s\<lparr>world := w, calls := calls s @ [CallAuthenticate a user_auth_tuple]\<rparr> in
          (case user_auth_tuple of
             Raises exc \<Rightarrow>
               (case exc of
                  APIException k h \<Rightarrow>
                    (Inl (APIException k (Val (Some (authenticate_header a)))), s1)
                | _ \<Rightarrow> (Inl exc, s1))
           | Returns r \<Rightarrow>
               if r \<noteq> None
               then (Inr (), s1\<lparr>self := (self s1)\<lparr>successful_authenticated := Val True,
                                                    authenticator := Val a\<rparr>\<rparr>)
               else perform_authentication_loop as s1))"

definition perform_authentication ::
  "('x, 'd, 'r) app \<Rightarrow> ('x, 'd) state \<Rightarrow> ('d exception + unit) \<times> ('x, 'd) state" where
  "perform_authentication current_app s =
     (let s0 = s\<lparr>self := (self s)\<lparr>successful_authenticated := Val False\<rparr>\<rparr> in
      case get_authenticators current_app s0 of
        (auths, s1) \<Rightarrow> perform_authentication_loop auths s1)"

subsection \<open>Permissions\<close>

definition get_authenticate_header :: "('x, 'd) state \<Rightarrow> 'd exception + string option" where
  "get_authenticate_header s =
     (case authenticators (self s) of
        Unset \<Rightarrow> Inl (AttributeError ''authenticators'')
      | Val auths \<Rightarrow>
          (case auths of [] \<Rightarrow> Inr None | a # _ \<Rightarrow> Inr (Some (authenticate_header a))))"

text \<open>
  \<open>self.authenticators and not self.successful_authenticated\<close>: the second attribute
  is read only when the first is a non-empty list. Every path of the method raises.
\<close>

definition permission_denied ::
  "('x, 'd) state \<Rightarrow> string option \<Rightarrow> string option \<Rightarrow> 'd exception + unit" where
  "permission_denied s msg cd =
     (case authenticators (self s) of
        Unset \<Rightarrow> Inl (AttributeError ''authenticators'')
      | Val auths \<Rightarrow>
          if auths \<noteq> [] then
            (case successful_authenticated (self s) of
               Unset \<Rightarrow> Inl (AttributeError ''successful_authenticated'')
             | Val ok \<Rightarrow>
                 if \<not> ok then
                   (case get_authenticate_header s of
                      Inl e \<Rightarrow> Inl e
                    | Inr h \<Rightarrow> Inl (APIException NotAuthenticated (Val h)))
                 else Inl (APIException (PermissionDenied msg cd) Unset))
          else Inl (APIException (PermissionDenied msg cd) Unset))"

fun check_permissions_loop ::
  "'x permission list \<Rightarrow> ('x, 'd) state \<Rightarrow> ('d exception + unit) \<times> ('x, 'd) state" where
  "check_permissions_loop [] s = (Inr (), s)"
| "check_permissions_loop (p # ps) s =
     (case has_permission p (world s) of
        (ok, w) \<Rightarrow>
          let s1 = s\<lparr>world := w, calls := calls s @ [CallHasPermission p ok]\<rparr> in
          if \<not> ok then
            (case permission_denied s1 (message p) (code p) of
               Inl exc \<Rightarrow> (Inl exc, s1)
             | Inr _ \<Rightarrow> check_permissions_loop ps s1)
          else check_permissions_loop ps s1)"

definition check_permissions ::
  "('x, 'd, 'r) app \<Rightarrow> ('x, 'd) state \<Rightarrow> ('d exception + unit) \<times> ('x, 'd) state" where
  "check_permissions current_app s =
     check_permissions_loop (get_permissions current_app s) s"

subsection \<open>Throttles\<close>

text \<open>
  \<open>max(throttle_durations, default=None)\<close>: the default for an empty list, else the
  running maximum, replaced only by a strictly greater element.
\<close>

fun py_max :: "('d::ord) list \<Rightarrow> 'd option" where
  "py_max [] = None"
| "py_max (x # xs) = Some (fold (\<lambda>y m. if m < y then y else m) xs x)"

fun check_throttles_loop ::
  "('x, 'd) throttle list \<Rightarrow> 'd list \<Rightarrow> ('x, 'd) state \<Rightarrow> 'd list \<times> ('x, 'd) state" where
  "check_throttles_loop [] throttle_durations s = (throttle_durations, s)"
| "check_throttles_loop (t # ts) throttle_durations s =
     (case allow_request t (world s) of
        (ok, w) \<Rightarrow>
          let s1 = s\<lparr>world := w, calls := calls s @ [CallAllowRequest t ok]\<rparr> in
          if \<not> ok then
            (case wait t (world s1) of
               (d, w') \<Rightarrow>
                 check_throttles_loop ts (throttle_durations @ [d])
                   (s1\<lparr>world := w', calls := calls s1 @ [CallWait t d]\<rparr>))
          else check_throttles_loop ts throttle_durations s1)"

definition check_throttles ::
  "('x, 'd::ord, 'r) app \<Rightarrow> ('x, 'd) state \<Rightarrow> ('d exception + unit) \<times> ('x, 'd) state" where
  "check_throttles current_app s =
     (case get_throttles current_app s of
        Inl exc \<Rightarrow> (Inl exc, s)
      | Inr ts \<Rightarrow>
          (case check_throttles_loop ts [] s of
             (throttle_durations, s1) \<Rightarrow>
               if throttle_durations \<noteq> []
               then (Inl (APIException (Throttled (py_max throttle_durations)) Unset), s1)
               else (Inr (), s1)))"

subsection \<open>Dispatch\<close>

definition initial ::
  "('x, 'd::ord, 'r) app \<Rightarrow> ('x, 'd) state \<Rightarrow> ('d exception + unit) \<times> ('x, 'd) state" where
  "initial current_app s =
     (case perform_authentication current_app s of
        (Inl exc, s1) \<Rightarrow> (Inl exc, s1)
      | (Inr _, s1) \<Rightarrow>
          (case check_permissions current_app s1 of
             (Inl exc, s2) \<Rightarrow> (Inl exc, s2)
           | (Inr _, s2) \<Rightarrow> check_throttles current_app s2))"

text \<open>
  \<open>exceptions.exception_handler\<close>, the built-in handler, belongs to the missing
  module: it is the parameter \<open>exception_handler\<close>. The handler returns a response.
\<close>

definition handle_exception ::
  "('d exception \<Rightarrow> 'r) \<Rightarrow> ('x, 'd, 'r) app \<Rightarrow> 'd exception \<Rightarrow> ('x, 'd) state \<Rightarrow> 'r \<times> ('x, 'd) state" where
  "handle_exception exception_handler current_app exc s =
     (let handler = (case EXCEPTION_HANDLER current_app of
                       Unset \<Rightarrow> exception_handler | Val h \<Rightarrow> h)
      in (handler exc, s\<lparr>calls := calls s @ [CallExceptionHandler exc]\<rparr>))"

text \<open>
  \<open>super().dispatch_request(*args, **kwargs)\<close> runs the handler method of the view:
  the parameter \<open>body\<close>, which returns a response or raises. It is outside the
  \<open>try\<close>, so what it raises leaves \<open>dispatch_request\<close>.
\<close>

definition dispatch_request ::
  "('d exception \<Rightarrow> 'r) \<Rightarrow> ('x world \<Rightarrow> ('d exception + 'r) \<times> 'x world) \<Rightarrow>
   ('x, 'd::ord, 'r) app \<Rightarrow> ('x, 'd) state \<Rightarrow> ('d exception + 'r) \<times> ('x, 'd) state" where
  "dispatch_request exception_handler body current_app s =
     (case initial current_app s of
        (Inl exc, s1) \<Rightarrow>
          (case handle_exception exception_handler current_app exc s1 of
             (response, s2) \<Rightarrow> (Inr response, s2))
      | (Inr _, s1) \<Rightarrow>
          (case body (world s1) of
             (res, w) \<Rightarrow> (res, s1\<lparr>world := w, calls := calls s1 @ [CallHandlerBody]\<rparr>)))"

subsection \<open>Notions used to state the properties\<close>

text \<open>
  The resolution rule in the words of the specification: the view-level list when it
  is non-empty, else the process-wide default (an absent default is empty).
\<close>

definition resolved_policy :: "'a list \<Rightarrow> 'a list attr \<Rightarrow> 'a list" where
  "resolved_policy view_level process_wide =
     (if view_level \<noteq> [] then view_level
      else (case process_wide of Unset \<Rightarrow> [] | Val cs \<Rightarrow> cs))"

text \<open>
  What one throttle leaves in the record of calls: it allowed the request (\<open>None\<close>),
  or it denied it and \<open>wait()\<close> returned \<open>d\<close> (\<open>Some d\<close>). \<open>waited\<close> lists the
  durations of the denials.
\<close>

fun throttle_calls :: "('x, 'd) throttle \<times> 'd option \<Rightarrow> ('x, 'd) event list" where
  "throttle_calls (t, None) = [CallAllowRequest t True]"
| "throttle_calls (t, Some d) = [CallAllowRequest t False, CallWait t d]"

fun waited :: "(('x, 'd) throttle \<times> 'd option) list \<Rightarrow> 'd list" where
  "waited [] = []"
| "waited ((t, None) # outcomes) = waited outcomes"
| "waited ((t, Some d) # outcomes) = d # waited outcomes"

text \<open>The calls made by the three steps, as opposed to the two made by dispatch.\<close>

fun strategy_call :: "('x, 'd) event \<Rightarrow> bool" where
  "strategy_call (CallExceptionHandler exc) = False"
| "strategy_call CallHandlerBody = False"
| "strategy_call ev = True"

subsection \<open>Concrete strategies and requests\<close>

text \<open>
  The scenarios the theorems are evaluated on. The external state is a counter of
  throttle hits, durations are whole seconds, and a response is a text with the
  exception it renders.
\<close>

definition FailingAuth :: "(nat, nat) authenticator" where
  "FailingAuth = \<lparr>authenticate = (\<lambda>w. (Returns None, w)),
                   authenticate_header = ''Basic realm=api''\<rparr>"

definition TokenAuth :: "(nat, nat) authenticator" where
  "TokenAuth = \<lparr>authenticate =
                   (\<lambda>w. (Returns (Some (''alice'', ''token'')),
                         w\<lparr>g_current_user := Val (Some ''alice'')\<rparr>)),
                 authenticate_header = ''Token''\<rparr>"

definition MalformedAuth :: "(nat, nat) authenticator" where
  "MalformedAuth = \<lparr>authenticate =
                       (\<lambda>w. (Raises (APIException (AuthenticationFailed ''malformed'') Unset), w)),
                     authenticate_header = ''Bearer''\<rparr>"

definition AlwaysAllow :: "nat permission" where
  "AlwaysAllow = \<lparr>has_permission = (\<lambda>w. (True, w)), message = None, code = None\<rparr>"

definition AlwaysDeny :: "nat permission" where
  "AlwaysDeny = \<lparr>has_permission = (\<lambda>w. (False, w)),
                  message = Some ''not allowed'', code = Some ''permission_denied''\<rparr>"

definition DenyingThrottle :: "nat \<Rightarrow> string option \<Rightarrow> (nat, nat) throttle" where
  "DenyingThrottle n rate =
     \<lparr>allow_request = (\<lambda>w. (False, w\<lparr>external := Suc (external w)\<rparr>)),
      wait = (\<lambda>w. (n, w))\<rparr>"

definition AllowingThrottle :: "string option \<Rightarrow> (nat, nat) throttle" where
  "AllowingThrottle rate =
     \<lparr>allow_request = (\<lambda>w. (True, w\<lparr>external := Suc (external w)\<rparr>)),
      wait = (\<lambda>w. (0, w))\<rparr>"

definition builtin_handler :: "nat exception \<Rightarrow> string \<times> nat exception" where
  "builtin_handler exc = (''built-in'', exc)"

definition custom_handler :: "nat exception \<Rightarrow> string \<times> nat exception" where
  "custom_handler exc = (''custom'', exc)"

definition ok_body :: "nat world \<Rightarrow> (nat exception + string \<times> nat exception) \<times> nat world" where
  "ok_body w = (Inr (''200 OK'', OtherException ''none''), w)"

text \<open>
  A request as Flask starts it: a new view object, whose instance attributes do not
  exist yet, with the class attributes of its view class; nothing called so far.
\<close>

definition new_request ::
  "('x, 'd) authenticator list \<Rightarrow> 'x permission list \<Rightarrow> ('x, 'd) throttle_handler list \<Rightarrow>
   'x \<Rightarrow> ('x, 'd) state" where
  "new_request acs pcs ths x =
     \<lparr>self = \<lparr>authentication_classes = acs, permission_classes = pcs, throttle_handlers = ths,
              authenticators = Unset, successful_authenticated = Unset, authenticator = Unset\<rparr>,
      world = \<lparr>g_current_user = Unset, external = x\<rparr>,
      calls = []\<rparr>"

definition app_config ::
  "(nat, nat) authenticator list \<Rightarrow> nat permission list \<Rightarrow> (nat, nat) throttle_handler list \<Rightarrow>
   (nat, nat, string \<times> nat exception) app" where
  "app_config acs pcs ths =
     \<lparr>AUTHENTICATION_CLASSES = Val acs, PERMISSION_CLASSES = Val pcs,
      THROTTLE_HANDLERS = Val ths, EXCEPTION_HANDLER = Unset\<rparr>"

definition no_config :: "(nat, nat, string \<times> nat exception) app" where
  "no_config =
     \<lparr>AUTHENTICATION_CLASSES = Unset, PERMISSION_CLASSES = Unset,
      THROTTLE_HANDLERS = Unset, EXCEPTION_HANDLER = Unset\<rparr>"

text \<open>Requests for the authentication step: the second of three authenticators
  succeeds; two authenticators find no credentials; none is configured.\<close>

definition token_request :: "(nat, nat) state" where
  "token_request = new_request [FailingAuth, TokenAuth, MalformedAuth] [] [] 0"

definition anonymous_request :: "(nat, nat) state" where
  "anonymous_request = new_request [FailingAuth, FailingAuth] [] [] 0"

definition open_request :: "(nat, nat) state" where
  "open_request = new_request [] [] [] 0"

text \<open>Requests for the permission step. The first two have been through the
  authentication step, with no authenticator configured; the third has two
  authenticators that find no credentials; the last is a view object on which
  \<open>perform_authentication\<close> has not run.\<close>

definition allowed_request :: "(nat, nat) state" where
  "allowed_request =
     snd (perform_authentication no_config (new_request [] [AlwaysAllow, AlwaysAllow] [] 0))"

definition guarded_request :: "(nat, nat) state" where
  "guarded_request =
     snd (perform_authentication no_config
            (new_request [] [AlwaysAllow, AlwaysDeny, AlwaysAllow] [] 0))"

definition unauthenticated_denied :: "(nat, nat) state" where
  "unauthenticated_denied = new_request [FailingAuth, FailingAuth] [AlwaysAllow, AlwaysDeny] [] 0"

definition skipped_authentication :: "(nat, nat) state" where
  "skipped_authentication = new_request [FailingAuth] [AlwaysAllow, AlwaysDeny] [] 0"

text \<open>A request with three throttles: the first and the last deny, with waits of
  5 and 2 seconds.\<close>

definition throttled_request :: "(nat, nat) state" where
  "throttled_request =
     new_request [] []
       [\<lparr>throttle_class = Some (DenyingThrottle 5), throttle_rate = Some ''1/s''\<rparr>,
        \<lparr>throttle_class = Some AllowingThrottle, throttle_rate = None\<rparr>,
        \<lparr>throttle_class = Some (DenyingThrottle 2), throttle_rate = Some ''1/s''\<rparr>] 0"

text \<open>Requests and configurations for dispatch: an authenticator that rejects
  malformed credentials; a configured exception handler; a process-wide default that
  denies; two successive process-wide configurations; a view with lists of its own.\<close>

definition malformed_request :: "(nat, nat) state" where
  "malformed_request = new_request [MalformedAuth] [AlwaysDeny] [] 0"

definition custom_app :: "(nat, nat, string \<times> nat exception) app" where
  "custom_app = no_config\<lparr>EXCEPTION_HANDLER := Val custom_handler\<rparr>"

definition deny_by_default :: "(nat, nat, string \<times> nat exception) app" where
  "deny_by_default = app_config [] [AlwaysDeny] []"

definition defaults_one :: "(nat, nat, string \<times> nat exception) app" where
  "defaults_one =
     app_config [FailingAuth] [AlwaysAllow]
       [\<lparr>throttle_class = Some (DenyingThrottle 5), throttle_rate = Some ''1/s''\<rparr>]"

definition defaults_two :: "(nat, nat, string \<times> nat exception) app" where
  "defaults_two =
     app_config [TokenAuth] [AlwaysDeny]
       [\<lparr>throttle_class = Some AllowingThrottle, throttle_rate = None\<rparr>]"

definition overriding_request :: "(nat, nat) state" where
  "overriding_request = new_request [TokenAuth] [AlwaysAllow] [] 0"

section \<open>Evaluating the scenarios\<close>

lemmas model_defs =
  perform_authentication_def get_authenticators_def check_permissions_def get_permissions_def
  permission_denied_def get_authenticate_header_def check_throttles_def get_throttles_def
  initial_def handle_exception_def dispatch_request_def Let_def

lemmas scenario_defs =
  new_request_def no_config_def app_config_def FailingAuth_def TokenAuth_def MalformedAuth_def
  AlwaysAllow_def AlwaysDeny_def DenyingThrottle_def AllowingThrottle_def

lemmas scenario_defs2 = scenario_defs builtin_handler_def custom_handler_def ok_body_def
  token_request_def anonymous_request_def open_request_def allowed_request_def
  guarded_request_def unauthenticated_denied_def skipped_authentication_def
  throttled_request_def malformed_request_def custom_app_def deny_by_default_def
  defaults_one_def defaults_two_def overriding_request_def

section \<open>The authentication step\<close>

text \<open>
  The loop ends in one of three ways, and the record of calls tells which: an
  authenticator returned a tuple after all before it returned \<open>None\<close>; an
  authenticator raised after all before it returned \<open>None\<close>; or all returned
  \<open>None\<close>. Each recorded result is a result the authenticator did give.
\<close>

lemma perform_authentication_loop_cases:
  assumes "perform_authentication_loop auths s = (r, s')"
  shows "(\<exists>pre a post u. auths = pre @ a # post
            \<and> calls s' = calls s @ map (\<lambda>b. CallAuthenticate b (Returns None)) pre
                             @ [CallAuthenticate a (Returns (Some u))]
            \<and> (\<forall>b\<in>set pre. \<exists>w. fst (authenticate b w) = Returns None)
            \<and> (\<exists>w. fst (authenticate a w) = Returns (Some u))
            \<and> r = Inr ()
            \<and> self s' = (self s)\<lparr>successful_authenticated := Val True, authenticator := Val a\<rparr>)
       \<or> (\<exists>pre a post exc. auths = pre @ a # post
            \<and> calls s' = calls s @ map (\<lambda>b. CallAuthenticate b (Returns None)) pre
                             @ [CallAuthenticate a (Raises exc)]
            \<and> (\<forall>b\<in>set pre. \<exists>w. fst (authenticate b w) = Returns None)
            \<and> (\<exists>w. fst (authenticate a w) = Raises exc)
            \<and> r = Inl (case exc of
                         APIException k h \<Rightarrow> APIException k (Val (Some (authenticate_header a)))
                       | _ \<Rightarrow> exc)
            \<and> self s' = self s)
       \<or> (calls s' = calls s @ map (\<lambda>b. CallAuthenticate b (Returns None)) auths
            \<and> (\<forall>b\<in>set auths. \<exists>w. fst (authenticate b w) = Returns None)
            \<and> r = Inr () \<and> self s' = self s \<and> g_current_user (world s') = Val None)"
  using assms
proof (induction auths arbitrary: s)
  case Nil
  then show ?case by auto
next
  case (Cons a as)
  obtain res w where aw: "authenticate a (world s) = (res, w)"
    by (cases "authenticate a (world s)")
  then have a_res: "\<exists>w0. fst (authenticate a w0) = res"
    by (metis fst_conv)
  define s1 where "s1 = s\<lparr>world := w, calls := calls s @ [CallAuthenticate a res]\<rparr>"
  have s1_self: "self s1 = self s" and s1_calls: "calls s1 = calls s @ [CallAuthenticate a res]"
    by (simp_all add: s1_def)
  show ?case
  proof (cases res)
    case (Raises exc)
    with Cons.prems aw
    have "r = Inl (case exc of
                     APIException k h \<Rightarrow> APIException k (Val (Some (authenticate_header a)))
                   | _ \<Rightarrow> exc)" and "s' = s1"
      by (auto simp: s1_def Let_def split: exception.splits)
    then have "a # as = [] @ a # as
            \<and> calls s' = calls s @ map (\<lambda>b. CallAuthenticate b (Returns None)) []
                             @ [CallAuthenticate a (Raises exc)]
            \<and> (\<forall>b\<in>set []. \<exists>w. fst (authenticate b w) = Returns None)
            \<and> (\<exists>w. fst (authenticate a w) = Raises exc)
            \<and> r = Inl (case exc of
                         APIException k h \<Rightarrow> APIException k (Val (Some (authenticate_header a)))
                       | _ \<Rightarrow> exc)
            \<and> self s' = self s"
      using Raises s1_self s1_calls a_res by simp
    then show ?thesis by blast
  next
    case (Returns u)
    show ?thesis
    proof (cases u)
      case None
      with Cons.prems aw Returns have "perform_authentication_loop as s1 = (r, s')"
        by (simp add: s1_def Let_def)
      from Cons.IH[OF this] show ?thesis
      proof (elim disjE exE conjE)
        fix pre b post v w0
        assume "as = pre @ b # post"
          "calls s' = calls s1 @ map (\<lambda>b. CallAuthenticate b (Returns None)) pre
                        @ [CallAuthenticate b (Returns (Some v))]"
          "\<forall>b\<in>set pre. \<exists>w. fst (authenticate b w) = Returns None"
          "fst (authenticate b w0) = Returns (Some v)"
          "r = Inr ()"
          "self s' = (self s1)\<lparr>successful_authenticated := Val True, authenticator := Val b\<rparr>"
        then have "a # as = (a # pre) @ b # post
            \<and> calls s' = calls s @ map (\<lambda>b. CallAuthenticate b (Returns None)) (a # pre)
                             @ [CallAuthenticate b (Returns (Some v))]
            \<and> (\<forall>b\<in>set (a # pre). \<exists>w. fst (authenticate b w) = Returns None)
            \<and> (\<exists>w. fst (authenticate b w) = Returns (Some v))
            \<and> r = Inr ()
            \<and> self s' = (self s)\<lparr>successful_authenticated := Val True, authenticator := Val b\<rparr>"
          using s1_self s1_calls Returns None a_res by auto
        then show ?thesis by blast
      next
        fix pre b post exc w0
        assume "as = pre @ b # post"
          "calls s' = calls s1 @ map (\<lambda>b. CallAuthenticate b (Returns None)) pre
                        @ [CallAuthenticate b (Raises exc)]"
          "\<forall>b\<in>set pre. \<exists>w. fst (authenticate b w) = Returns None"
          "fst (authenticate b w0) = Raises exc"
          "r = Inl (case exc of
                      APIException k h \<Rightarrow> APIException k (Val (Some (authenticate_header b)))
                    | _ \<Rightarrow> exc)"
          "self s' = self s1"
        then have "a # as = (a # pre) @ b # post
            \<and> calls s' = calls s @ map (\<lambda>b. CallAuthenticate b (Returns None)) (a # pre)
                             @ [CallAuthenticate b (Raises exc)]
            \<and> (\<forall>b\<in>set (a # pre). \<exists>w. fst (authenticate b w) = Returns None)
            \<and> (\<exists>w. fst (authenticate b w) = Raises exc)
            \<and> r = Inl (case exc of
                         APIException k h \<Rightarrow> APIException k (Val (Some (authenticate_header b)))
                       | _ \<Rightarrow> exc)
            \<and> self s' = self s"
          using s1_self s1_calls Returns None a_res by auto
        then show ?thesis by blast
      next
        assume "calls s' = calls s1 @ map (\<lambda>b. CallAuthenticate b (Returns None)) as"
          "\<forall>b\<in>set as. \<exists>w. fst (authenticate b w) = Returns None"
          "r = Inr ()" "self s' = self s1" "g_current_user (world s') = Val None"
        then show ?thesis using s1_self s1_calls Returns None a_res by simp
      qed
    next
      case (Some v)
      with Cons.prems aw Returns
      have "r = Inr ()" and "s' = s1\<lparr>self := (self s1)\<lparr>successful_authenticated := Val True,
                                                    authenticator := Val a\<rparr>\<rparr>"
        by (auto simp: s1_def Let_def)
      then have "a # as = [] @ a # as
            \<and> calls s' = calls s @ map (\<lambda>b. CallAuthenticate b (Returns None)) []
                             @ [CallAuthenticate a (Returns (Some v))]
            \<and> (\<forall>b\<in>set []. \<exists>w. fst (authenticate b w) = Returns None)
            \<and> (\<exists>w. fst (authenticate a w) = Returns (Some v))
            \<and> r = Inr ()
            \<and> self s' = (self s)\<lparr>successful_authenticated := Val True, authenticator := Val a\<rparr>"
        using Returns Some s1_self s1_calls a_res by simp
      then show ?thesis by blast
    qed
  qed
qed

lemma perform_authentication_unfold:
  "perform_authentication app s =
     perform_authentication_loop (fst (get_authenticators app s))
       (s\<lparr>self := (self s)\<lparr>successful_authenticated := Val False,
                            authenticators := Val (fst (get_authenticators app s))\<rparr>\<rparr>)"
  by (simp add: perform_authentication_def get_authenticators_def Let_def)

text \<open>
  When the authenticators before one return \<open>None\<close> in every ambient state and that
  one returns a tuple in every ambient state, the loop stops at it and marks it.
\<close>

lemma perform_authentication_loop_first:
  assumes "\<forall>b\<in>set pre. \<forall>w. fst (authenticate b w) = Returns None"
    and "\<forall>w. \<exists>u. fst (authenticate a w) = Returns (Some u)"
    and "perform_authentication_loop (pre @ a # post) s = (r, s')"
  shows "r = Inr ()
       \<and> self s' = (self s)\<lparr>successful_authenticated := Val True, authenticator := Val a\<rparr>
       \<and> (\<exists>u. calls s' = calls s @ map (\<lambda>b. CallAuthenticate b (Returns None)) pre
                              @ [CallAuthenticate a (Returns (Some u))])"
  using assms
proof (induction pre arbitrary: s)
  case Nil
  obtain res w where aw: "authenticate a (world s) = (res, w)"
    by (cases "authenticate a (world s)")
  from Nil.prems(2) obtain u where "fst (authenticate a (world s)) = Returns (Some u)"
    by blast
  with aw have res: "res = Returns (Some u)" by simp
  with Nil.prems(3) aw show ?case
    by (auto simp: Let_def)
next
  case (Cons b pre)
  obtain res w where bw: "authenticate b (world s) = (res, w)"
    by (cases "authenticate b (world s)")
  from Cons.prems(1) have "fst (authenticate b (world s)) = Returns None"
    by simp
  with bw have res: "res = Returns None" by simp
  define s1 where "s1 = s\<lparr>world := w, calls := calls s @ [CallAuthenticate b res]\<rparr>"
  from Cons.prems(3) bw res have "perform_authentication_loop (pre @ a # post) s1 = (r, s')"
    by (simp add: s1_def Let_def)
  moreover from Cons.prems(1) have "\<forall>b\<in>set pre. \<forall>w. fst (authenticate b w) = Returns None"
    by simp
  ultimately have "r = Inr ()
       \<and> self s' = (self s1)\<lparr>successful_authenticated := Val True, authenticator := Val a\<rparr>
       \<and> (\<exists>u. calls s' = calls s1 @ map (\<lambda>b. CallAuthenticate b (Returns None)) pre
                              @ [CallAuthenticate a (Returns (Some u))])"
    using Cons.IH Cons.prems(2) by blast
  then show ?case
    using res by (simp add: s1_def)
qed

text \<open>
  Claim C1. Whatever the authenticators, \<open>perform_authentication\<close> ends in one of
  three ways. An authenticator returned a tuple after all before it returned \<open>None\<close>:
  it is the one marked, the request is authenticated, and the calls made are those of
  the authenticators before it and its own, in order, none of a later one. Or an
  authenticator raised after all before it returned \<open>None\<close>: none is marked and no
  later one is called. Or every authenticator was called and returned \<open>None\<close>: none is
  marked. So at most one authenticator is marked, the first whose \<open>authenticate()\<close>
  returns a tuple, and a call that returns a tuple is always the last call. In
  particular, where the resolved list has an authenticator that always returns a tuple
  after authenticators that always return \<open>None\<close>, that authenticator is marked and
  nothing after it is called.
\<close>

theorem perform_authentication_first_success:
  assumes "perform_authentication app s = (r, s')"
  shows "((\<exists>pre a post u. fst (get_authenticators app s) = pre @ a # post
             \<and> calls s' = calls s @ map (\<lambda>b. CallAuthenticate b (Returns None)) pre
                              @ [CallAuthenticate a (Returns (Some u))]
             \<and> (\<forall>b\<in>set pre. \<exists>w. fst (authenticate b w) = Returns None)
             \<and> (\<exists>w. fst (authenticate a w) = Returns (Some u))
             \<and> r = Inr ()
             \<and> successful_authenticated (self s') = Val True
             \<and> authenticator (self s') = Val a)
        \<or> (\<exists>pre a post exc. fst (get_authenticators app s) = pre @ a # post
             \<and> calls s' = calls s @ map (\<lambda>b. CallAuthenticate b (Returns None)) pre
                              @ [CallAuthenticate a (Raises exc)]
             \<and> (\<forall>b\<in>set pre. \<exists>w. fst (authenticate b w) = Returns None)
             \<and> (\<exists>w. fst (authenticate a w) = Raises exc)
             \<and> r = Inl (case exc of
                          APIException k h \<Rightarrow>
                            APIException k (Val (Some (authenticate_header a)))
                        | _ \<Rightarrow> exc)
             \<and> successful_authenticated (self s') = Val False
             \<and> authenticator (self s') = authenticator (self s))
        \<or> (calls s' = calls s @ map (\<lambda>b. CallAuthenticate b (Returns None))
                                     (fst (get_authenticators app s))
             \<and> (\<forall>b\<in>set (fst (get_authenticators app s)).
                    \<exists>w. fst (authenticate b w) = Returns None)
             \<and> r = Inr ()
             \<and> successful_authenticated (self s') = Val False
             \<and> authenticator (self s') = authenticator (self s)))
       \<and> (\<forall>pre a post. fst (get_authenticators app s) = pre @ a # post \<longrightarrow>
            (\<forall>b\<in>set pre. \<forall>w. fst (authenticate b w) = Returns None) \<longrightarrow>
            (\<forall>w. \<exists>u. fst (authenticate a w) = Returns (Some u)) \<longrightarrow>
              r = Inr ()
              \<and> successful_authenticated (self s') = Val True
              \<and> authenticator (self s') = Val a
              \<and> (\<exists>u. calls s' = calls s @ map (\<lambda>b. CallAuthenticate b (Returns None)) pre
                                     @ [CallAuthenticate a (Returns (Some u))]))"
proof (rule conjI)
  let ?auths = "fst (get_authenticators app s)"
  let ?s0 = "s\<lparr>self := (self s)\<lparr>successful_authenticated := Val False,
                                  authenticators := Val ?auths\<rparr>\<rparr>"
  from assms have loop: "perform_authentication_loop ?auths ?s0 = (r, s')"
    by (simp add: perform_authentication_unfold)
  from perform_authentication_loop_cases[OF loop]
  show "(\<exists>pre a post u. ?auths = pre @ a # post
             \<and> calls s' = calls s @ map (\<lambda>b. CallAuthenticate b (Returns None)) pre
                              @ [CallAuthenticate a (Returns (Some u))]
             \<and> (\<forall>b\<in>set pre. \<exists>w. fst (authenticate b w) = Returns None)
             \<and> (\<exists>w. fst (authenticate a w) = Returns (Some u))
             \<and> r = Inr ()
             \<and> successful_authenticated (self s') = Val True
             \<and> authenticator (self s') = Val a)
        \<or> (\<exists>pre a post exc. ?auths = pre @ a # post
             \<and> calls s' = calls s @ map (\<lambda>b. CallAuthenticate b (Returns None)) pre
                              @ [CallAuthenticate a (Raises exc)]
             \<and> (\<forall>b\<in>set pre. \<exists>w. fst (authenticate b w) = Returns None)
             \<and> (\<exists>w. fst (authenticate a w) = Raises exc)
             \<and> r = Inl (case exc of
                          APIException k h \<Rightarrow>
                            APIException k (Val (Some (authenticate_header a)))
                        | _ \<Rightarrow> exc)
             \<and> successful_authenticated (self s') = Val False
             \<and> authenticator (self s') = authenticator (self s))
        \<or> (calls s' = calls s @ map (\<lambda>b. CallAuthenticate b (Returns None)) ?auths
             \<and> (\<forall>b\<in>set ?auths. \<exists>w. fst (authenticate b w) = Returns None)
             \<and> r = Inr ()
             \<and> successful_authenticated (self s') = Val False
             \<and> authenticator (self s') = authenticator (self s))"
  proof (elim disjE exE conjE)
    fix pre a post u w0
    assume "?auths = pre @ a # post"
      "calls s' = calls ?s0 @ map (\<lambda>b. CallAuthenticate b (Returns None)) pre
                    @ [CallAuthenticate a (Returns (Some u))]"
      "\<forall>b\<in>set pre. \<exists>w. fst (authenticate b w) = Returns None"
      "fst (authenticate a w0) = Returns (Some u)"
      "r = Inr ()"
      "self s' = (self ?s0)\<lparr>successful_authenticated := Val True, authenticator := Val a\<rparr>"
    then have "?auths = pre @ a # post
             \<and> calls s' = calls s @ map (\<lambda>b. CallAuthenticate b (Returns None)) pre
                              @ [CallAuthenticate a (Returns (Some u))]
             \<and> (\<forall>b\<in>set pre. \<exists>w. fst (authenticate b w) = Returns None)
             \<and> (\<exists>w. fst (authenticate a w) = Returns (Some u))
             \<and> r = Inr ()
             \<and> successful_authenticated (self s') = Val True
             \<and> authenticator (self s') = Val a"
      by auto
    then show ?thesis by blast
  next
    fix pre a post exc w0
    assume "?auths = pre @ a # post"
      "calls s' = calls ?s0 @ map (\<lambda>b. CallAuthenticate b (Returns None)) pre
                    @ [CallAuthenticate a (Raises exc)]"
      "\<forall>b\<in>set pre. \<exists>w. fst (authenticate b w) = Returns None"
      "fst (authenticate a w0) = Raises exc"
      "r = Inl (case exc of
                  APIException k h \<Rightarrow> APIException k (Val (Some (authenticate_header a)))
                | _ \<Rightarrow> exc)"
      "self s' = self ?s0"
    then have "?auths = pre @ a # post
             \<and> calls s' = calls s @ map (\<lambda>b. CallAuthenticate b (Returns None)) pre
                              @ [CallAuthenticate a (Raises exc)]
             \<and> (\<forall>b\<in>set pre. \<exists>w. fst (authenticate b w) = Returns None)
             \<and> (\<exists>w. fst (authenticate a w) = Raises exc)
             \<and> r = Inl (case exc of
                          APIException k h \<Rightarrow>
                            APIException k (Val (Some (authenticate_header a)))
                        | _ \<Rightarrow> exc)
             \<and> successful_authenticated (self s') = Val False
             \<and> authenticator (self s') = authenticator (self s)"
      by auto
    then show ?thesis by blast
  next
    assume "calls s' = calls ?s0 @ map (\<lambda>b. CallAuthenticate b (Returns None)) ?auths"
      "\<forall>b\<in>set ?auths. \<exists>w. fst (authenticate b w) = Returns None"
      "r = Inr ()" "self s' = self ?s0"
    then show ?thesis by simp
  qed
  show "\<forall>pre a post. ?auths = pre @ a # post \<longrightarrow>
            (\<forall>b\<in>set pre. \<forall>w. fst (authenticate b w) = Returns None) \<longrightarrow>
            (\<forall>w. \<exists>u. fst (authenticate a w) = Returns (Some u)) \<longrightarrow>
              r = Inr ()
              \<and> successful_authenticated (self s') = Val True
              \<and> authenticator (self s') = Val a
              \<and> (\<exists>u. calls s' = calls s @ map (\<lambda>b. CallAuthenticate b (Returns None)) pre
                                     @ [CallAuthenticate a (Returns (Some u))])"
  proof (intro allI impI)
    fix pre a post
    assume split: "?auths = pre @ a # post"
      and pre: "\<forall>b\<in>set pre. \<forall>w. fst (authenticate b w) = Returns None"
      and a: "\<forall>w. \<exists>u. fst (authenticate a w) = Returns (Some u)"
    from loop split have "perform_authentication_loop (pre @ a # post) ?s0 = (r, s')"
      by simp
    from perform_authentication_loop_first[OF pre a this]
    show "r = Inr ()
              \<and> successful_authenticated (self s') = Val True
              \<and> authenticator (self s') = Val a
              \<and> (\<exists>u. calls s' = calls s @ map (\<lambda>b. CallAuthenticate b (Returns None)) pre
                                     @ [CallAuthenticate a (Returns (Some u))])"
      by simp
  qed
qed

theorem perform_authentication_first_success_witness:
  "perform_authentication no_config token_request
     = (Inr (), snd (perform_authentication no_config token_request))
   \<and> fst (get_authenticators no_config token_request)
       = [FailingAuth] @ TokenAuth # [MalformedAuth]
   \<and> list_all (\<lambda>b. \<forall>w. fst (authenticate b w) = Returns None) [FailingAuth]
   \<and> (\<forall>w. \<exists>u. fst (authenticate TokenAuth w) = Returns (Some u))
   \<and> successful_authenticated (self (snd (perform_authentication no_config token_request)))
       = Val True
   \<and> authenticator (self (snd (perform_authentication no_config token_request))) = Val TokenAuth
   \<and> (\<exists>u. calls (snd (perform_authentication no_config token_request))
             = calls token_request @ map (\<lambda>b. CallAuthenticate b (Returns None)) [FailingAuth]
               @ [CallAuthenticate TokenAuth (Returns (Some u))])
   \<and> calls (snd (perform_authentication no_config token_request))
       = [CallAuthenticate FailingAuth (Returns None),
          CallAuthenticate TokenAuth (Returns (Some (''alice'', ''token'')))]"
proof -
  have run: "perform_authentication no_config token_request
     = (Inr (), snd (perform_authentication no_config token_request))"
    by (simp add: perform_authentication_def get_authenticators_def token_request_def
        new_request_def no_config_def FailingAuth_def TokenAuth_def Let_def)
  have split: "fst (get_authenticators no_config token_request)
       = [FailingAuth] @ TokenAuth # [MalformedAuth]"
    by (simp add: get_authenticators_def token_request_def new_request_def no_config_def Let_def)
  have pre: "\<forall>b\<in>set [FailingAuth]. \<forall>w. fst (authenticate b w) = Returns None"
    by (simp add: FailingAuth_def)
  then have pre': "list_all (\<lambda>b. \<forall>w. fst (authenticate b w) = Returns None) [FailingAuth]"
    by simp
  have tok: "\<forall>w. \<exists>u. fst (authenticate TokenAuth w) = Returns (Some u)"
    by (simp add: TokenAuth_def)
  have log: "calls (snd (perform_authentication no_config token_request))
       = [CallAuthenticate FailingAuth (Returns None),
          CallAuthenticate TokenAuth (Returns (Some (''alice'', ''token'')))]"
    by (simp add: perform_authentication_def get_authenticators_def token_request_def
        new_request_def no_config_def FailingAuth_def TokenAuth_def Let_def)
  from perform_authentication_first_success[OF run, THEN conjunct2] split pre tok
  have concl: "Inr () = (Inr () :: nat exception + unit)
     \<and> successful_authenticated (self (snd (perform_authentication no_config token_request)))
         = Val True
     \<and> authenticator (self (snd (perform_authentication no_config token_request)))
         = Val TokenAuth
     \<and> (\<exists>u. calls (snd (perform_authentication no_config token_request))
               = calls token_request
                 @ map (\<lambda>b. CallAuthenticate b (Returns None)) [FailingAuth]
                 @ [CallAuthenticate TokenAuth (Returns (Some u))])"
    by blast
  from concl[THEN conjunct2, THEN conjunct1] concl[THEN conjunct2, THEN conjunct2, THEN conjunct1]
    concl[THEN conjunct2, THEN conjunct2, THEN conjunct2] run split pre' tok log
  show ?thesis
    by - (intro conjI; assumption)
qed

text \<open>
  Claim C7, as the code has it. The claim speaks of every request state after
  \<open>perform_authentication\<close>. The method never clears \<open>self.authenticator\<close>: on a
  view object that went through a successful run before (here under a configuration
  whose default authenticator accepts), a later run in which no authenticator succeeds
  ends with \<open>successful_authenticated\<close> false and the earlier authenticator still in
  the attribute.
\<close>

theorem stale_authenticator_counterexample:
  "fst (perform_authentication defaults_two open_request) = Inr ()
   \<and> authenticator (self (snd (perform_authentication defaults_two open_request)))
       = Val TokenAuth
   \<and> fst (perform_authentication defaults_one
            (snd (perform_authentication defaults_two open_request))) = Inr ()
   \<and> successful_authenticated
        (self (snd (perform_authentication defaults_one
                      (snd (perform_authentication defaults_two open_request))))) = Val False
   \<and> authenticator
        (self (snd (perform_authentication defaults_one
                      (snd (perform_authentication defaults_two open_request))))) = Val TokenAuth"
  by (simp add: perform_authentication_def get_authenticators_def open_request_def
      new_request_def defaults_one_def defaults_two_def app_config_def FailingAuth_def
      TokenAuth_def Let_def)

text \<open>
  Claim C7, amended. The view object has the one attribute \<open>authenticator\<close>, so at
  most one authenticator is marked. After \<open>perform_authentication\<close> either the step
  succeeded (\<open>successful_authenticated\<close> is true, nothing was raised) and the attribute
  holds an authenticator of the resolved list, or \<open>successful_authenticated\<close> is false
  and the attribute is what it was before the step. On a view object that had no
  attribute \<open>authenticator\<close> before the step, as the new view object of a request has
  none, the attribute is absent afterwards (the \<open>none\<close> of the specification's request
  context) exactly when authentication did not succeed.
\<close>

theorem active_authenticator_invariant:
  assumes "perform_authentication app s = (r, s')"
  shows "((successful_authenticated (self s') = Val True \<and> r = Inr ()
             \<and> (\<exists>a. authenticator (self s') = Val a
                      \<and> a \<in> set (fst (get_authenticators app s))))
          \<or> (successful_authenticated (self s') = Val False
             \<and> authenticator (self s') = authenticator (self s)))
       \<and> (authenticator (self s) = Unset \<longrightarrow>
            (authenticator (self s') = Unset)
              = (successful_authenticated (self s') = Val False))"
proof -
  let ?auths = "fst (get_authenticators app s)"
  let ?s0 = "s\<lparr>self := (self s)\<lparr>successful_authenticated := Val False,
                                  authenticators := Val ?auths\<rparr>\<rparr>"
  from assms have "perform_authentication_loop ?auths ?s0 = (r, s')"
    by (simp add: perform_authentication_unfold)
  from perform_authentication_loop_cases[OF this] show ?thesis
  proof (elim disjE exE conjE)
    fix pre a post u w0
    assume "?auths = pre @ a # post" "r = Inr ()"
      "self s' = (self ?s0)\<lparr>successful_authenticated := Val True, authenticator := Val a\<rparr>"
    then have "successful_authenticated (self s') = Val True \<and> r = Inr ()
            \<and> authenticator (self s') = Val a \<and> a \<in> set ?auths"
      by simp
    then show ?thesis by auto
  next
    fix pre a post exc
    assume "self s' = self ?s0"
    then show ?thesis by simp
  next
    assume "self s' = self ?s0"
    then show ?thesis by simp
  qed
qed

theorem active_authenticator_invariant_witness:
  "perform_authentication no_config token_request
     = (fst (perform_authentication no_config token_request),
        snd (perform_authentication no_config token_request))
   \<and> ((successful_authenticated (self (snd (perform_authentication no_config token_request)))
          = Val True
        \<and> fst (perform_authentication no_config token_request) = Inr ()
        \<and> (\<exists>a. authenticator (self (snd (perform_authentication no_config token_request))) = Val a
               \<and> a \<in> set (fst (get_authenticators no_config token_request))))
      \<or> (successful_authenticated (self (snd (perform_authentication no_config token_request)))
          = Val False
        \<and> authenticator (self (snd (perform_authentication no_config token_request)))
            = authenticator (self token_request)))
   \<and> authenticator (self anonymous_request) = Unset
   \<and> successful_authenticated (self (snd (perform_authentication no_config anonymous_request)))
       = Val False
   \<and> authenticator (self (snd (perform_authentication no_config anonymous_request))) = Unset"
proof -
  have run: "perform_authentication no_config token_request
               = (fst (perform_authentication no_config token_request),
                  snd (perform_authentication no_config token_request))"
    by simp
  have run': "perform_authentication no_config anonymous_request
               = (fst (perform_authentication no_config anonymous_request),
                  snd (perform_authentication no_config anonymous_request))"
    by simp
  have fresh: "authenticator (self anonymous_request) = Unset"
    by (simp add: anonymous_request_def new_request_def)
  have failed: "successful_authenticated
                  (self (snd (perform_authentication no_config anonymous_request))) = Val False"
    by (simp add: perform_authentication_def get_authenticators_def anonymous_request_def
        new_request_def no_config_def FailingAuth_def Let_def)
  from active_authenticator_invariant[OF run', THEN conjunct2] fresh failed
  have absent: "authenticator (self (snd (perform_authentication no_config anonymous_request)))
                  = Unset"
    by blast
  from active_authenticator_invariant[OF run, THEN conjunct1] run fresh failed absent
  show ?thesis
    by - (intro conjI; assumption)
qed

text \<open>
  Claim C9. With an empty resolved list, and whenever the list is exhausted with every
  \<open>authenticate()\<close> returning \<open>None\<close> (as the record of calls shows, or because the
  authenticators return \<open>None\<close> in every ambient state), \<open>perform_authentication\<close>
  raises nothing, leaves \<open>successful_authenticated\<close> false and sets
  \<open>g.current_user\<close> to \<open>None\<close>.
\<close>

theorem perform_authentication_unauthenticated:
  assumes "perform_authentication app s = (r, s')"
  shows "(fst (get_authenticators app s) = [] \<longrightarrow>
            r = Inr () \<and> successful_authenticated (self s') = Val False
            \<and> g_current_user (world s') = Val None)
       \<and> (calls s' = calls s @ map (\<lambda>b. CallAuthenticate b (Returns None))
                                   (fst (get_authenticators app s)) \<longrightarrow>
            r = Inr () \<and> successful_authenticated (self s') = Val False
            \<and> g_current_user (world s') = Val None)
       \<and> ((\<forall>a\<in>set (fst (get_authenticators app s)). \<forall>w. fst (authenticate a w) = Returns None) \<longrightarrow>
            r = Inr () \<and> successful_authenticated (self s') = Val False
            \<and> g_current_user (world s') = Val None)"
proof -
  let ?auths = "fst (get_authenticators app s)"
  let ?s0 = "s\<lparr>self := (self s)\<lparr>successful_authenticated := Val False,
                                  authenticators := Val ?auths\<rparr>\<rparr>"
  from assms have "perform_authentication_loop ?auths ?s0 = (r, s')"
    by (simp add: perform_authentication_unfold)
  from perform_authentication_loop_cases[OF this] show ?thesis
  proof (elim disjE exE conjE)
    fix pre a post u w0
    assume *: "?auths = pre @ a # post"
      "calls s' = calls ?s0 @ map (\<lambda>b. CallAuthenticate b (Returns None)) pre
                    @ [CallAuthenticate a (Returns (Some u))]"
      "fst (authenticate a w0) = Returns (Some u)"
    have "?auths \<noteq> []" using *(1) by simp
    moreover have "calls s' \<noteq> calls s @ map (\<lambda>b. CallAuthenticate b (Returns None)) ?auths"
      using *(1,2) by simp
    moreover have "\<not> (\<forall>a\<in>set ?auths. \<forall>w. fst (authenticate a w) = Returns None)"
      using *(1,3) by auto
    ultimately show ?thesis by blast
  next
    fix pre a post exc w0
    assume *: "?auths = pre @ a # post"
      "calls s' = calls ?s0 @ map (\<lambda>b. CallAuthenticate b (Returns None)) pre
                    @ [CallAuthenticate a (Raises exc)]"
      "fst (authenticate a w0) = Raises exc"
    have "?auths \<noteq> []" using *(1) by simp
    moreover have "calls s' \<noteq> calls s @ map (\<lambda>b. CallAuthenticate b (Returns None)) ?auths"
      using *(1,2) by simp
    moreover have "\<not> (\<forall>a\<in>set ?auths. \<forall>w. fst (authenticate a w) = Returns None)"
      using *(1,3) by auto
    ultimately show ?thesis by blast
  next
    assume "r = Inr ()" "self s' = self ?s0" "g_current_user (world s') = Val None"
    then show ?thesis by simp
  qed
qed

theorem perform_authentication_unauthenticated_witness:
  "perform_authentication no_config open_request
     = (fst (perform_authentication no_config open_request),
        snd (perform_authentication no_config open_request))
   \<and> fst (get_authenticators no_config open_request) = []
   \<and> fst (perform_authentication no_config open_request) = Inr ()
   \<and> successful_authenticated (self (snd (perform_authentication no_config open_request)))
       = Val False
   \<and> g_current_user (world (snd (perform_authentication no_config open_request))) = Val None
   \<and> calls (snd (perform_authentication no_config anonymous_request))
       = calls anonymous_request
         @ map (\<lambda>b. CallAuthenticate b (Returns None))
             (fst (get_authenticators no_config anonymous_request))
   \<and> list_all (\<lambda>a. \<forall>w. fst (authenticate a w) = Returns None)
        (fst (get_authenticators no_config anonymous_request))
   \<and> fst (perform_authentication no_config anonymous_request) = Inr ()
   \<and> successful_authenticated (self (snd (perform_authentication no_config anonymous_request)))
       = Val False
   \<and> g_current_user (world (snd (perform_authentication no_config anonymous_request))) = Val None"
proof -
  have run: "perform_authentication no_config open_request
               = (fst (perform_authentication no_config open_request),
                  snd (perform_authentication no_config open_request))"
    by simp
  have empty: "fst (get_authenticators no_config open_request) = []"
    by (simp add: get_authenticators_def open_request_def new_request_def no_config_def)
  have run': "perform_authentication no_config anonymous_request
               = (fst (perform_authentication no_config anonymous_request),
                  snd (perform_authentication no_config anonymous_request))"
    by simp
  have log: "calls (snd (perform_authentication no_config anonymous_request))
       = calls anonymous_request
         @ map (\<lambda>b. CallAuthenticate b (Returns None))
             (fst (get_authenticators no_config anonymous_request))"
    by (simp add: perform_authentication_def get_authenticators_def anonymous_request_def
        new_request_def no_config_def FailingAuth_def Let_def)
  have none: "\<forall>a\<in>set (fst (get_authenticators no_config anonymous_request)).
                \<forall>w. fst (authenticate a w) = Returns None"
    by (simp add: get_authenticators_def anonymous_request_def new_request_def no_config_def
        FailingAuth_def Let_def)
  then have none': "list_all (\<lambda>a. \<forall>w. fst (authenticate a w) = Returns None)
        (fst (get_authenticators no_config anonymous_request))"
    by (simp add: list_all_iff)
  from perform_authentication_unauthenticated[OF run] empty
  have a: "fst (perform_authentication no_config open_request) = Inr ()
    \<and> successful_authenticated (self (snd (perform_authentication no_config open_request)))
        = Val False
    \<and> g_current_user (world (snd (perform_authentication no_config open_request))) = Val None"
    by blast
  from perform_authentication_unauthenticated[OF run'] log none
  have b: "fst (perform_authentication no_config anonymous_request) = Inr ()
    \<and> successful_authenticated (self (snd (perform_authentication no_config anonymous_request)))
        = Val False
    \<and> g_current_user (world (snd (perform_authentication no_config anonymous_request))) = Val None"
    by blast
  from a b run empty log none' show ?thesis by blast
qed

section \<open>The permission step\<close>

text \<open>
  \<open>permission_denied\<close> raises on every path, and what it raises depends on the view
  object alone. The loop either finds every permission granting, or stops at the
  first that denies.
\<close>

lemma permission_denied_raises: "\<exists>exc. permission_denied s msg cd = Inl exc"
  by (simp add: permission_denied_def get_authenticate_header_def
      split: attr.splits list.splits)

lemma permission_denied_self:
  "self s1 = self s2 \<Longrightarrow> permission_denied s1 msg cd = permission_denied s2 msg cd"
  by (simp add: permission_denied_def get_authenticate_header_def
      split: attr.splits list.splits)


lemma permission_denied_set:
  "authenticators (self s) = Val auths \<Longrightarrow> successful_authenticated (self s) = Val ok \<Longrightarrow>
   permission_denied s msg cd =
     Inl (if auths \<noteq> [] \<and> \<not> ok
          then APIException NotAuthenticated (Val (Some (authenticate_header (hd auths))))
          else APIException (PermissionDenied msg cd) Unset)"
  by (simp add: permission_denied_def get_authenticate_header_def split: list.splits)

lemma check_permissions_loop_cases:
  assumes "check_permissions_loop ps s = (r, s')"
  shows "(r = Inr ()
            \<and> calls s' = calls s @ map (\<lambda>q. CallHasPermission q True) ps
            \<and> (\<forall>q\<in>set ps. \<exists>w. fst (has_permission q w))
            \<and> self s' = self s)
       \<or> (\<exists>pre p post. ps = pre @ p # post
            \<and> calls s' = calls s @ map (\<lambda>q. CallHasPermission q True) pre
                             @ [CallHasPermission p False]
            \<and> (\<forall>q\<in>set pre. \<exists>w. fst (has_permission q w))
            \<and> (\<exists>w. \<not> fst (has_permission p w))
            \<and> r = permission_denied s (message p) (code p)
            \<and> self s' = self s)"
  using assms
proof (induction ps arbitrary: s)
  case Nil
  then show ?case by simp
next
  case (Cons p ps)
  obtain ok w where pw: "has_permission p (world s) = (ok, w)"
    by (cases "has_permission p (world s)")
  then have p_res: "\<exists>w0. fst (has_permission p w0) = ok"
    by (metis fst_conv)
  define s1 where "s1 = s\<lparr>world := w, calls := calls s @ [CallHasPermission p ok]\<rparr>"
  have s1_self: "self s1 = self s" and s1_calls: "calls s1 = calls s @ [CallHasPermission p ok]"
    by (simp_all add: s1_def)
  have denied: "permission_denied s1 (message p) (code p) = permission_denied s (message p) (code p)"
    using s1_self by (rule permission_denied_self)
  show ?case
  proof (cases ok)
    case False
    obtain exc where exc: "permission_denied s (message p) (code p) = Inl exc"
      using permission_denied_raises by blast
    with Cons.prems pw False denied have "r = Inl exc" and "s' = s1"
      by (auto simp: s1_def Let_def)
    then have "p # ps = [] @ p # ps
            \<and> calls s' = calls s @ map (\<lambda>q. CallHasPermission q True) []
                             @ [CallHasPermission p False]
            \<and> (\<forall>q\<in>set []. \<exists>w. fst (has_permission q w))
            \<and> (\<exists>w. \<not> fst (has_permission p w))
            \<and> r = permission_denied s (message p) (code p)
            \<and> self s' = self s"
      using False exc s1_self s1_calls p_res by auto
    then show ?thesis by blast
  next
    case True
    with Cons.prems pw have "check_permissions_loop ps s1 = (r, s')"
      by (simp add: s1_def Let_def)
    from Cons.IH[OF this] show ?thesis
    proof (elim disjE exE conjE)
      assume "r = Inr ()"
        "calls s' = calls s1 @ map (\<lambda>q. CallHasPermission q True) ps"
        "\<forall>q\<in>set ps. \<exists>w. fst (has_permission q w)"
        "self s' = self s1"
      then show ?thesis using True s1_self s1_calls p_res by auto
    next
      fix pre q post w0
      assume "ps = pre @ q # post"
        "calls s' = calls s1 @ map (\<lambda>q. CallHasPermission q True) pre
                      @ [CallHasPermission q False]"
        "\<forall>q\<in>set pre. \<exists>w. fst (has_permission q w)"
        "\<not> fst (has_permission q w0)"
        "r = permission_denied s1 (message q) (code q)"
        "self s' = self s1"
      then have "p # ps = (p # pre) @ q # post
            \<and> calls s' = calls s @ map (\<lambda>q. CallHasPermission q True) (p # pre)
                             @ [CallHasPermission q False]
            \<and> (\<forall>q\<in>set (p # pre). \<exists>w. fst (has_permission q w))
            \<and> (\<exists>w. \<not> fst (has_permission q w))
            \<and> r = permission_denied s (message q) (code q)
            \<and> self s' = self s"
        using True s1_self s1_calls p_res permission_denied_self[OF s1_self] by auto
      then show ?thesis by blast
    qed
  qed
qed

lemma check_permissions_loop_denying:
  assumes "p \<in> set ps" and "\<forall>w. \<not> fst (has_permission p w)"
  shows "fst (check_permissions_loop ps s) = permission_denied s (message p) (code p)
       \<or> (\<exists>q\<in>set ps. fst (check_permissions_loop ps s) = permission_denied s (message q) (code q))"
proof -
  obtain r s' where run: "check_permissions_loop ps s = (r, s')"
    by (cases "check_permissions_loop ps s")
  from check_permissions_loop_cases[OF run] show ?thesis
  proof (elim disjE exE conjE)
    assume "\<forall>q\<in>set ps. \<exists>w. fst (has_permission q w)"
    with assms show ?thesis by blast
  next
    fix pre q post w0
    assume "ps = pre @ q # post" "r = permission_denied s (message q) (code q)"
    then show ?thesis using run by auto
  qed
qed

lemma perform_authentication_attrs:
  assumes "perform_authentication app s = (r, s1)"
  shows "authenticators (self s1) = Val (fst (get_authenticators app s))
       \<and> (\<exists>ok. successful_authenticated (self s1) = Val ok)
       \<and> authentication_classes (self s1) = authentication_classes (self s)
       \<and> permission_classes (self s1) = permission_classes (self s)
       \<and> throttle_handlers (self s1) = throttle_handlers (self s)"
proof -
  let ?auths = "fst (get_authenticators app s)"
  let ?s0 = "s\<lparr>self := (self s)\<lparr>successful_authenticated := Val False,
                                  authenticators := Val ?auths\<rparr>\<rparr>"
  from assms have "perform_authentication_loop ?auths ?s0 = (r, s1)"
    by (simp add: perform_authentication_unfold)
  from perform_authentication_loop_cases[OF this] show ?thesis
    by (elim disjE exE conjE) auto
qed

text \<open>
  Claim C2. Whatever the permissions, \<open>check_permissions\<close> evaluates them in order.
  When it returns without raising, \<open>has_permission()\<close> was called on every resolved
  permission and returned true. Otherwise the resolved list splits at the first
  permission that returned false: the calls made are those before it, all true, and
  its own; no later permission is called; and what is raised is what
  \<open>permission_denied\<close> raises for the message and code of that permission.
\<close>

theorem check_permissions_fail_fast:
  assumes "check_permissions app s = (r, s')"
  shows "(r = Inr () \<longrightarrow>
            calls s' = calls s @ map (\<lambda>q. CallHasPermission q True) (get_permissions app s)
            \<and> (\<forall>q\<in>set (get_permissions app s). \<exists>w. fst (has_permission q w)))
       \<and> (r \<noteq> Inr () \<longrightarrow>
            (\<exists>pre p post exc. get_permissions app s = pre @ p # post
               \<and> calls s' = calls s @ map (\<lambda>q. CallHasPermission q True) pre
                                @ [CallHasPermission p False]
               \<and> (\<forall>q\<in>set pre. \<exists>w. fst (has_permission q w))
               \<and> (\<exists>w. \<not> fst (has_permission p w))
               \<and> r = permission_denied s (message p) (code p)
               \<and> r = Inl exc))"
proof -
  from assms have "check_permissions_loop (get_permissions app s) s = (r, s')"
    by (simp add: check_permissions_def)
  from check_permissions_loop_cases[OF this] show ?thesis
  proof (elim disjE exE conjE)
    assume "r = Inr ()"
      "calls s' = calls s @ map (\<lambda>q. CallHasPermission q True) (get_permissions app s)"
      "\<forall>q\<in>set (get_permissions app s). \<exists>w. fst (has_permission q w)"
    then show ?thesis by simp
  next
    fix pre p post w0
    assume *: "get_permissions app s = pre @ p # post"
      "calls s' = calls s @ map (\<lambda>q. CallHasPermission q True) pre
                    @ [CallHasPermission p False]"
      "\<forall>q\<in>set pre. \<exists>w. fst (has_permission q w)"
      "\<not> fst (has_permission p w0)"
      "r = permission_denied s (message p) (code p)"
    obtain exc where "permission_denied s (message p) (code p) = Inl exc"
      using permission_denied_raises by blast
    with * have "get_permissions app s = pre @ p # post
               \<and> calls s' = calls s @ map (\<lambda>q. CallHasPermission q True) pre
                                @ [CallHasPermission p False]
               \<and> (\<forall>q\<in>set pre. \<exists>w. fst (has_permission q w))
               \<and> (\<exists>w. \<not> fst (has_permission p w))
               \<and> r = permission_denied s (message p) (code p)
               \<and> r = Inl exc"
      by auto
    then show ?thesis by blast
  qed
qed

theorem check_permissions_fail_fast_witness:
  "check_permissions no_config allowed_request
     = (Inr (), snd (check_permissions no_config allowed_request))
   \<and> calls (snd (check_permissions no_config allowed_request))
       = calls allowed_request
         @ map (\<lambda>q. CallHasPermission q True) (get_permissions no_config allowed_request)
   \<and> check_permissions no_config guarded_request
       = (fst (check_permissions no_config guarded_request),
          snd (check_permissions no_config guarded_request))
   \<and> fst (check_permissions no_config guarded_request) \<noteq> Inr ()
   \<and> (\<exists>pre p post exc. get_permissions no_config guarded_request = pre @ p # post
         \<and> calls (snd (check_permissions no_config guarded_request))
             = calls guarded_request @ map (\<lambda>q. CallHasPermission q True) pre
               @ [CallHasPermission p False]
         \<and> (\<forall>q\<in>set pre. \<exists>w. fst (has_permission q w))
         \<and> (\<exists>w. \<not> fst (has_permission p w))
         \<and> fst (check_permissions no_config guarded_request)
             = permission_denied guarded_request (message p) (code p)
         \<and> fst (check_permissions no_config guarded_request) = Inl exc)
   \<and> calls (snd (check_permissions no_config guarded_request))
       = [CallHasPermission AlwaysAllow True, CallHasPermission AlwaysDeny False]"
proof -
  have pass: "check_permissions no_config allowed_request
     = (Inr (), snd (check_permissions no_config allowed_request))"
    by (simp add: allowed_request_def model_defs scenario_defs)
  have run: "check_permissions no_config guarded_request
       = (fst (check_permissions no_config guarded_request),
          snd (check_permissions no_config guarded_request))"
    by simp
  have deny: "fst (check_permissions no_config guarded_request) \<noteq> Inr ()"
    by (simp add: guarded_request_def model_defs scenario_defs)
  have log: "calls (snd (check_permissions no_config guarded_request))
       = [CallHasPermission AlwaysAllow True, CallHasPermission AlwaysDeny False]"
    by (simp add: guarded_request_def model_defs scenario_defs)
  from check_permissions_fail_fast[OF pass] check_permissions_fail_fast[OF run] pass run deny log
  show ?thesis by blast
qed

text \<open>
  Claim C4. When \<open>check_permissions\<close> raises after \<open>perform_authentication\<close> has
  returned, the exception is \<open>NotAuthenticated\<close> with the header of the first
  resolved authenticator if the resolved authenticator list is non-empty and
  authentication did not succeed; in every other case it is \<open>PermissionDenied\<close> with the
  message and code of the permission that denied.
\<close>

theorem permission_denied_escalation:
  assumes "perform_authentication app s = (Inr (), s1)"
    and "check_permissions app s1 = (Inl exc, s2)"
  shows "\<exists>pre p post. get_permissions app s1 = pre @ p # post
           \<and> calls s2 = calls s1 @ map (\<lambda>q. CallHasPermission q True) pre
                            @ [CallHasPermission p False]
           \<and> exc = (if fst (get_authenticators app s) \<noteq> []
                         \<and> successful_authenticated (self s1) = Val False
                      then APIException NotAuthenticated
                             (Val (Some (authenticate_header (hd (fst (get_authenticators app s))))))
                      else APIException (PermissionDenied (message p) (code p)) Unset)"
proof -
  let ?auths = "fst (get_authenticators app s)"
  from perform_authentication_attrs[OF assms(1)]
  obtain ok where attrs: "authenticators (self s1) = Val ?auths"
      "successful_authenticated (self s1) = Val ok"
    by blast
  from assms(2) have "check_permissions_loop (get_permissions app s1) s1 = (Inl exc, s2)"
    by (simp add: check_permissions_def)
  from check_permissions_loop_cases[OF this] show ?thesis
  proof (elim disjE exE conjE)
    assume "Inl exc = Inr ()"
    then show ?thesis by simp
  next
    fix pre p post w0
    assume *: "get_permissions app s1 = pre @ p # post"
      "calls s2 = calls s1 @ map (\<lambda>q. CallHasPermission q True) pre
                    @ [CallHasPermission p False]"
      "Inl exc = permission_denied s1 (message p) (code p)"
    from *(3) permission_denied_set[OF attrs, of "message p" "code p"]
    have "exc = (if ?auths \<noteq> [] \<and> successful_authenticated (self s1) = Val False
                 then APIException NotAuthenticated (Val (Some (authenticate_header (hd ?auths))))
                 else APIException (PermissionDenied (message p) (code p)) Unset)"
      using attrs(2) by (auto split: if_splits)
    with *(1,2) show ?thesis by blast
  qed
qed

theorem permission_denied_escalation_witness:
  "perform_authentication no_config unauthenticated_denied
     = (Inr (), snd (perform_authentication no_config unauthenticated_denied))
   \<and> check_permissions no_config (snd (perform_authentication no_config unauthenticated_denied))
       = (Inl (APIException NotAuthenticated (Val (Some ''Basic realm=api''))),
          snd (check_permissions no_config
                 (snd (perform_authentication no_config unauthenticated_denied))))
   \<and> (\<exists>pre p post.
         get_permissions no_config (snd (perform_authentication no_config unauthenticated_denied))
           = pre @ p # post
         \<and> calls (snd (check_permissions no_config
                          (snd (perform_authentication no_config unauthenticated_denied))))
             = calls (snd (perform_authentication no_config unauthenticated_denied))
               @ map (\<lambda>q. CallHasPermission q True) pre @ [CallHasPermission p False]
         \<and> (APIException NotAuthenticated (Val (Some ''Basic realm=api'')) :: nat exception)
             = (if fst (get_authenticators no_config unauthenticated_denied) \<noteq> []
                   \<and> successful_authenticated
                        (self (snd (perform_authentication no_config unauthenticated_denied)))
                      = Val False
                then APIException NotAuthenticated
                       (Val (Some (authenticate_header
                          (hd (fst (get_authenticators no_config unauthenticated_denied))))))
                else APIException (PermissionDenied (message p) (code p)) Unset))
   \<and> fst (check_permissions no_config guarded_request)
       = Inl (APIException (PermissionDenied (Some ''not allowed'') (Some ''permission_denied''))
                Unset)"
proof -
  have auth: "perform_authentication no_config unauthenticated_denied
     = (Inr (), snd (perform_authentication no_config unauthenticated_denied))"
    by (simp add: unauthenticated_denied_def model_defs scenario_defs)
  have perm: "check_permissions no_config
                (snd (perform_authentication no_config unauthenticated_denied))
       = (Inl (APIException NotAuthenticated (Val (Some ''Basic realm=api''))),
          snd (check_permissions no_config
                 (snd (perform_authentication no_config unauthenticated_denied))))"
    by (simp add: unauthenticated_denied_def model_defs scenario_defs)
  have other: "fst (check_permissions no_config guarded_request)
       = Inl (APIException (PermissionDenied (Some ''not allowed'') (Some ''permission_denied''))
                Unset)"
    by (simp add: guarded_request_def model_defs scenario_defs)
  from permission_denied_escalation[OF auth perm] auth perm other show ?thesis
    by - (intro conjI; assumption)
qed



section \<open>The throttle step\<close>

text \<open>
  On a non-empty list \<open>py_max\<close> is the maximum. The loop calls \<open>allow_request()\<close> on
  each throttle in turn, and \<open>wait()\<close> right after each denial.
\<close>

lemma py_max_Max:
  fixes ds :: "('d::linorder) list"
  assumes "ds \<noteq> []"
  shows "py_max ds = Some (Max (set ds))"
proof -
  have step: "(\<lambda>(y::'d) m. if m < y then y else m) = max"
    by (auto simp: fun_eq_iff max_def)
  from assms obtain x xs where "ds = x # xs"
    by (cases ds) auto
  then show ?thesis
    using Max.set_eq_fold[of x xs] by (simp add: step)
qed

lemma check_throttles_loop_calls:
  assumes "check_throttles_loop ts ds s = (ds', s')"
  shows "\<exists>outcomes. map fst outcomes = ts
           \<and> calls s' = calls s @ concat (map throttle_calls outcomes)
           \<and> ds' = ds @ waited outcomes
           \<and> (\<forall>t. (t, None) \<in> set outcomes \<longrightarrow> (\<exists>w. fst (allow_request t w)))
           \<and> (\<forall>t d. (t, Some d) \<in> set outcomes \<longrightarrow>
                 (\<exists>w. \<not> fst (allow_request t w)) \<and> (\<exists>w. fst (wait t w) = d))
           \<and> self s' = self s"
  using assms
proof (induction ts arbitrary: ds s)
  case Nil
  then show ?case by (intro exI[of _ "[]"]) simp
next
  case (Cons t ts)
  obtain ok w where tw: "allow_request t (world s) = (ok, w)"
    by (cases "allow_request t (world s)")
  then have t_res: "\<exists>w0. fst (allow_request t w0) = ok"
    by (metis fst_conv)
  define s1 where "s1 = s\<lparr>world := w, calls := calls s @ [CallAllowRequest t ok]\<rparr>"
  show ?case
  proof (cases ok)
    case True
    with Cons.prems tw have "check_throttles_loop ts ds s1 = (ds', s')"
      by (simp add: s1_def Let_def)
    from Cons.IH[OF this] obtain outcomes where o:
      "map fst outcomes = ts"
      "calls s' = calls s1 @ concat (map throttle_calls outcomes)"
      "ds' = ds @ waited outcomes"
      "\<forall>t. (t, None) \<in> set outcomes \<longrightarrow> (\<exists>w. fst (allow_request t w))"
      "\<forall>t d. (t, Some d) \<in> set outcomes \<longrightarrow>
                 (\<exists>w. \<not> fst (allow_request t w)) \<and> (\<exists>w. fst (wait t w) = d)"
      "self s' = self s1"
      by blast
    have "map fst ((t, None) # outcomes) = t # ts
           \<and> calls s' = calls s @ concat (map throttle_calls ((t, None) # outcomes))
           \<and> ds' = ds @ waited ((t, None) # outcomes)
           \<and> (\<forall>u. (u, None) \<in> set ((t, None) # outcomes) \<longrightarrow> (\<exists>w. fst (allow_request u w)))
           \<and> (\<forall>u d. (u, Some d) \<in> set ((t, None) # outcomes) \<longrightarrow>
                 (\<exists>w. \<not> fst (allow_request u w)) \<and> (\<exists>w. fst (wait u w) = d))
           \<and> self s' = self s"
      using o True t_res by (auto simp: s1_def)
    then show ?thesis by (rule exI[where x = "(t, None) # outcomes"])
  next
    case False
    obtain d w' where dw: "wait t w = (d, w')"
      by (cases "wait t w")
    then have d_res: "\<exists>w0. fst (wait t w0) = d"
      by (metis fst_conv)
    define s2 where "s2 = s1\<lparr>world := w', calls := calls s1 @ [CallWait t d]\<rparr>"
    from Cons.prems tw dw False have "check_throttles_loop ts (ds @ [d]) s2 = (ds', s')"
      by (simp add: s1_def s2_def Let_def)
    from Cons.IH[OF this] obtain outcomes where o:
      "map fst outcomes = ts"
      "calls s' = calls s2 @ concat (map throttle_calls outcomes)"
      "ds' = (ds @ [d]) @ waited outcomes"
      "\<forall>t. (t, None) \<in> set outcomes \<longrightarrow> (\<exists>w. fst (allow_request t w))"
      "\<forall>t d. (t, Some d) \<in> set outcomes \<longrightarrow>
                 (\<exists>w. \<not> fst (allow_request t w)) \<and> (\<exists>w. fst (wait t w) = d)"
      "self s' = self s2"
      by blast
    have "map fst ((t, Some d) # outcomes) = t # ts
           \<and> calls s' = calls s @ concat (map throttle_calls ((t, Some d) # outcomes))
           \<and> ds' = ds @ waited ((t, Some d) # outcomes)
           \<and> (\<forall>u. (u, None) \<in> set ((t, Some d) # outcomes) \<longrightarrow> (\<exists>w. fst (allow_request u w)))
           \<and> (\<forall>u e. (u, Some e) \<in> set ((t, Some d) # outcomes) \<longrightarrow>
                 (\<exists>w. \<not> fst (allow_request u w)) \<and> (\<exists>w. fst (wait u w) = e))
           \<and> self s' = self s"
      using o False t_res d_res by (auto simp: s1_def s2_def)
    then show ?thesis by (rule exI[where x = "(t, Some d) # outcomes"])
  qed
qed

lemma waited_empty_iff: "waited outcomes = [] \<longleftrightarrow> (\<forall>x\<in>set outcomes. snd x = None)"
  by (induction outcomes rule: waited.induct) auto

text \<open>
  Claim C3. Whatever the throttles, \<open>check_throttles\<close> calls \<open>allow_request()\<close> on
  every one of them, in order, denial or not; it calls \<open>wait()\<close> on the throttles that
  denied and on no other, and collects what they return. If none denied it raises
  nothing. If at least one denied it raises \<open>Throttled\<close> with the maximum of the
  collected durations; it never raises \<open>Throttled\<close> with the \<open>None\<close> that \<open>max\<close>
  would give for an empty list.
\<close>

theorem check_throttles_collects_maximum:
  fixes app :: "('x, 'd::linorder, 'r) app"
  assumes "get_throttles app s = Inr ts"
    and "check_throttles app s = (r, s')"
  shows "\<exists>outcomes. map fst outcomes = ts
           \<and> calls s' = calls s @ concat (map throttle_calls outcomes)
           \<and> (\<forall>t. (t, None) \<in> set outcomes \<longrightarrow> (\<exists>w. fst (allow_request t w)))
           \<and> (\<forall>t d. (t, Some d) \<in> set outcomes \<longrightarrow>
                 (\<exists>w. \<not> fst (allow_request t w)) \<and> (\<exists>w. fst (wait t w) = d))
           \<and> ((\<forall>x\<in>set outcomes. snd x = None) \<longrightarrow> r = Inr ())
           \<and> (\<not> (\<forall>x\<in>set outcomes. snd x = None) \<longrightarrow>
                 r = Inl (APIException (Throttled (Some (Max (set (waited outcomes))))) Unset))
           \<and> (\<forall>h. r \<noteq> Inl (APIException (Throttled None) h))"
proof -
  obtain ds s1 where loop: "check_throttles_loop ts [] s = (ds, s1)"
    by (cases "check_throttles_loop ts [] s")
  from check_throttles_loop_calls[OF loop] obtain outcomes where o:
    "map fst outcomes = ts"
    "calls s1 = calls s @ concat (map throttle_calls outcomes)"
    "ds = [] @ waited outcomes"
    "\<forall>t. (t, None) \<in> set outcomes \<longrightarrow> (\<exists>w. fst (allow_request t w))"
    "\<forall>t d. (t, Some d) \<in> set outcomes \<longrightarrow>
                 (\<exists>w. \<not> fst (allow_request t w)) \<and> (\<exists>w. fst (wait t w) = d)"
    by blast
  have ds: "ds = waited outcomes" using o(3) by simp
  show ?thesis
  proof (cases "ds = []")
    case True
    with assms loop have "r = Inr ()" and "s' = s1"
      by (auto simp: check_throttles_def)
    moreover have "\<forall>x\<in>set outcomes. snd x = None"
      using True ds waited_empty_iff by metis
    ultimately show ?thesis using o by blast
  next
    case False
    with assms loop have "r = Inl (APIException (Throttled (py_max ds)) Unset)" and "s' = s1"
      by (auto simp: check_throttles_def)
    then have "r = Inl (APIException (Throttled (Some (Max (set (waited outcomes))))) Unset)"
      using py_max_Max[OF False] ds by simp
    moreover have "\<not> (\<forall>x\<in>set outcomes. snd x = None)"
      using False ds waited_empty_iff by metis
    ultimately show ?thesis using o \<open>s' = s1\<close> by blast
  qed
qed

theorem check_throttles_collects_maximum_witness:
  "get_throttles no_config throttled_request
     = Inr [DenyingThrottle 5 (Some ''1/s''), AllowingThrottle None,
            DenyingThrottle 2 (Some ''1/s'')]
   \<and> check_throttles no_config throttled_request
       = (Inl (APIException (Throttled (Some 5)) Unset),
          snd (check_throttles no_config throttled_request))
   \<and> (\<exists>outcomes.
         map fst outcomes = [DenyingThrottle 5 (Some ''1/s''), AllowingThrottle None,
                             DenyingThrottle 2 (Some ''1/s'')]
         \<and> calls (snd (check_throttles no_config throttled_request))
             = calls throttled_request @ concat (map throttle_calls outcomes)
         \<and> (\<forall>t. (t, None) \<in> set outcomes \<longrightarrow> (\<exists>w. fst (allow_request t w)))
         \<and> (\<forall>t d. (t, Some d) \<in> set outcomes \<longrightarrow>
               (\<exists>w. \<not> fst (allow_request t w)) \<and> (\<exists>w. fst (wait t w) = d))
         \<and> ((\<forall>x\<in>set outcomes. snd x = None) \<longrightarrow>
               (Inl (APIException (Throttled (Some 5)) Unset) :: nat exception + unit) = Inr ())
         \<and> (\<not> (\<forall>x\<in>set outcomes. snd x = None) \<longrightarrow>
               (Inl (APIException (Throttled (Some 5)) Unset) :: nat exception + unit)
                 = Inl (APIException (Throttled (Some (Max (set (waited outcomes))))) Unset))
         \<and> (\<forall>h. (Inl (APIException (Throttled (Some 5)) Unset) :: nat exception + unit)
                  \<noteq> Inl (APIException (Throttled None) h)))
   \<and> calls (snd (check_throttles no_config throttled_request))
       = [CallAllowRequest (DenyingThrottle 5 (Some ''1/s'')) False,
          CallWait (DenyingThrottle 5 (Some ''1/s'')) 5,
          CallAllowRequest (AllowingThrottle None) True,
          CallAllowRequest (DenyingThrottle 2 (Some ''1/s'')) False,
          CallWait (DenyingThrottle 2 (Some ''1/s'')) 2]"
proof -
  have resolved: "get_throttles no_config throttled_request
     = Inr [DenyingThrottle 5 (Some ''1/s''), AllowingThrottle None,
            DenyingThrottle 2 (Some ''1/s'')]"
    by (simp add: throttled_request_def model_defs scenario_defs)
  have run: "check_throttles no_config throttled_request
       = (Inl (APIException (Throttled (Some 5)) Unset),
          snd (check_throttles no_config throttled_request))"
    by (simp add: throttled_request_def model_defs scenario_defs)
  have log: "calls (snd (check_throttles no_config throttled_request))
       = [CallAllowRequest (DenyingThrottle 5 (Some ''1/s'')) False,
          CallWait (DenyingThrottle 5 (Some ''1/s'')) 5,
          CallAllowRequest (AllowingThrottle None) True,
          CallAllowRequest (DenyingThrottle 2 (Some ''1/s'')) False,
          CallWait (DenyingThrottle 2 (Some ''1/s'')) 2]"
    by (simp add: throttled_request_def model_defs scenario_defs)
  from check_throttles_collects_maximum[OF resolved run] resolved run log show ?thesis
    by - (intro conjI; assumption)
qed

section \<open>Resolution and dispatch\<close>

text \<open>
  Each getter computes the specification's resolution rule from the view's class
  attribute and the current configuration. The three steps add only strategy calls to
  the record and leave the class attributes alone.
\<close>

lemma get_throttles_loop_instantiates:
  assumes "\<forall>h\<in>set hs. throttle_class h \<noteq> None"
  shows "get_throttles_loop hs acc
           = Inr (acc @ map (\<lambda>h. the (throttle_class h) (throttle_rate h)) hs)"
  using assms by (induction hs arbitrary: acc) auto

lemma get_authenticators_resolved:
  "fst (get_authenticators app s)
     = resolved_policy (authentication_classes (self s)) (AUTHENTICATION_CLASSES app)"
  by (simp add: get_authenticators_def resolved_policy_def Let_def)

lemma get_permissions_resolved:
  "get_permissions app s = resolved_policy (permission_classes (self s)) (PERMISSION_CLASSES app)"
  by (simp add: get_permissions_def resolved_policy_def Let_def)

lemma get_throttles_resolved:
  "get_throttles app s
     = get_throttles_loop (resolved_policy (throttle_handlers (self s)) (THROTTLE_HANDLERS app)) []"
  by (simp add: get_throttles_def resolved_policy_def Let_def)

lemma throttle_calls_strategy: "list_all strategy_call (throttle_calls x)"
  by (cases x rule: throttle_calls.cases) simp_all

lemma perform_authentication_frame:
  assumes "perform_authentication app s = (r, s')"
  shows "\<exists>evs. calls s' = calls s @ evs \<and> list_all strategy_call evs"
proof -
  let ?auths = "fst (get_authenticators app s)"
  let ?s0 = "s\<lparr>self := (self s)\<lparr>successful_authenticated := Val False,
                                  authenticators := Val ?auths\<rparr>\<rparr>"
  from assms have "perform_authentication_loop ?auths ?s0 = (r, s')"
    by (simp add: perform_authentication_unfold)
  from perform_authentication_loop_cases[OF this] show ?thesis
    by (elim disjE exE conjE) (simp_all add: list_all_iff)
qed

lemma check_permissions_frame:
  assumes "check_permissions app s = (r, s')"
  shows "(\<exists>evs. calls s' = calls s @ evs \<and> list_all strategy_call evs) \<and> self s' = self s"
proof -
  from assms have "check_permissions_loop (get_permissions app s) s = (r, s')"
    by (simp add: check_permissions_def)
  from check_permissions_loop_cases[OF this] show ?thesis
    by (elim disjE exE conjE) (simp_all add: list_all_iff)
qed

lemma check_throttles_frame:
  assumes "check_throttles app s = (r, s')"
  shows "(\<exists>evs. calls s' = calls s @ evs \<and> list_all strategy_call evs) \<and> self s' = self s"
proof (cases "get_throttles app s")
  case (Inl exc)
  with assms show ?thesis by (simp add: check_throttles_def)
next
  case (Inr ts)
  obtain ds s1 where loop: "check_throttles_loop ts [] s = (ds, s1)"
    by (cases "check_throttles_loop ts [] s")
  with assms Inr have "s' = s1"
    by (simp add: check_throttles_def split: if_splits)
  from check_throttles_loop_calls[OF loop] obtain outcomes where
    "calls s1 = calls s @ concat (map throttle_calls outcomes)" "self s1 = self s"
    by blast
  moreover have "list_all strategy_call (concat (map throttle_calls outcomes))"
    by (induction outcomes) (simp_all add: throttle_calls_strategy)
  ultimately show ?thesis using \<open>s' = s1\<close> by simp
qed

lemma initial_frame:
  assumes "initial app s = (r, s')"
  shows "(\<exists>evs. calls s' = calls s @ evs \<and> list_all strategy_call evs)
       \<and> authentication_classes (self s') = authentication_classes (self s)
       \<and> permission_classes (self s') = permission_classes (self s)
       \<and> throttle_handlers (self s') = throttle_handlers (self s)"
proof -
  obtain r1 s1 where a: "perform_authentication app s = (r1, s1)"
    by (cases "perform_authentication app s")
  obtain r2 s2 where b: "check_permissions app s1 = (r2, s2)"
    by (cases "check_permissions app s1")
  obtain r3 s3 where c: "check_throttles app s2 = (r3, s3)"
    by (cases "check_throttles app s2")
  from perform_authentication_frame[OF a] obtain e1 where
    e1: "calls s1 = calls s @ e1" "list_all strategy_call e1" by blast
  from check_permissions_frame[OF b] obtain e2 where
    e2: "calls s2 = calls s1 @ e2" "list_all strategy_call e2" "self s2 = self s1" by blast
  from check_throttles_frame[OF c] obtain e3 where
    e3: "calls s3 = calls s2 @ e3" "list_all strategy_call e3" "self s3 = self s2" by blast
  note cls = perform_authentication_attrs[OF a]
  have s': "s' = s1 \<or> s' = s2 \<or> s' = s3"
    using assms a b c by (auto simp: initial_def split: sum.splits)
  have "calls s1 = calls s @ e1 \<and> list_all strategy_call e1" using e1 by simp
  moreover have "calls s2 = calls s @ (e1 @ e2) \<and> list_all strategy_call (e1 @ e2)"
    using e1 e2 by simp
  moreover have "calls s3 = calls s @ (e1 @ e2 @ e3) \<and> list_all strategy_call (e1 @ e2 @ e3)"
    using e1 e2 e3 by simp
  ultimately have "\<exists>evs. calls s' = calls s @ evs \<and> list_all strategy_call evs"
    using s' by blast
  moreover have "authentication_classes (self s') = authentication_classes (self s)
       \<and> permission_classes (self s') = permission_classes (self s)
       \<and> throttle_handlers (self s') = throttle_handlers (self s)"
    using s' cls e2(3) e3(3) by auto
  ultimately show ?thesis by simp
qed

lemma dispatch_request_raised:
  assumes "initial app s = (Inl exc, s1)"
  shows "dispatch_request exception_handler body app s
           = (Inr ((case EXCEPTION_HANDLER app of Unset \<Rightarrow> exception_handler | Val h \<Rightarrow> h) exc),
              s1\<lparr>calls := calls s1 @ [CallExceptionHandler exc]\<rparr>)"
  using assms by (simp add: dispatch_request_def handle_exception_def Let_def)

lemma dispatch_request_returned:
  assumes "initial app s = (Inr (), s1)"
  shows "dispatch_request exception_handler body app s
           = (fst (body (world s1)),
              s1\<lparr>world := snd (body (world s1)), calls := calls s1 @ [CallHandlerBody]\<rparr>)"
  using assms by (simp add: dispatch_request_def split: prod.splits)

lemma dispatch_request_classes:
  "authentication_classes (self (snd (dispatch_request exception_handler body app s)))
     = authentication_classes (self s)
   \<and> permission_classes (self (snd (dispatch_request exception_handler body app s)))
       = permission_classes (self s)
   \<and> throttle_handlers (self (snd (dispatch_request exception_handler body app s)))
       = throttle_handlers (self s)"
proof -
  obtain r s1 where i: "initial app s = (r, s1)"
    by (cases "initial app s")
  show ?thesis
  proof (cases r)
    case (Inl exc)
    with i initial_frame[OF i] dispatch_request_raised[of app s exc s1 exception_handler body]
    show ?thesis by simp
  next
    case (Inr u)
    with i initial_frame[OF i] dispatch_request_returned[of app s s1 exception_handler body]
    show ?thesis by simp
  qed
qed

lemma initial_raised_calls:
  assumes "initial app s = (Inl exc, s1)"
  shows "fst (dispatch_request exception_handler body app s)
           = Inr ((case EXCEPTION_HANDLER app of Unset \<Rightarrow> exception_handler | Val h \<Rightarrow> h) exc)
       \<and> (\<exists>evs. calls (snd (dispatch_request exception_handler body app s))
                    = calls s @ evs @ [CallExceptionHandler exc]
                \<and> list_all strategy_call evs
                \<and> CallHandlerBody \<notin> set evs
                \<and> (\<forall>e. CallExceptionHandler e \<notin> set evs))"
proof -
  from initial_frame[OF assms] obtain evs where
    evs: "calls s1 = calls s @ evs" "list_all strategy_call evs"
    by blast
  have "CallHandlerBody \<notin> set evs" "\<forall>e. CallExceptionHandler e \<notin> set evs"
    using evs(2) by (auto simp: list_all_iff)
  with evs dispatch_request_raised[OF assms, of exception_handler body]
  have "fst (dispatch_request exception_handler body app s)
           = Inr ((case EXCEPTION_HANDLER app of Unset \<Rightarrow> exception_handler | Val h \<Rightarrow> h) exc)
       \<and> calls (snd (dispatch_request exception_handler body app s))
                    = calls s @ evs @ [CallExceptionHandler exc]
       \<and> list_all strategy_call evs
       \<and> CallHandlerBody \<notin> set evs
       \<and> (\<forall>e. CallExceptionHandler e \<notin> set evs)"
    by simp
  then show ?thesis by blast
qed

text \<open>
  Claim C8. An exception raised by any of the three steps is the exception \<open>initial\<close>
  raises. When \<open>initial\<close> raises, \<open>dispatch_request\<close> returns what the configured
  \<open>EXCEPTION_HANDLER\<close> (the built-in handler when none is configured) returns for
  that exception; the handler is called once, after the strategy calls of the steps,
  and the handler body is not called.
\<close>

theorem dispatch_request_handles_errors:
  "(initial app s = (Inl exc, s1) \<longrightarrow>
       fst (dispatch_request exception_handler body app s)
         = Inr ((case EXCEPTION_HANDLER app of Unset \<Rightarrow> exception_handler | Val h \<Rightarrow> h) exc)
     \<and> (\<exists>evs. calls (snd (dispatch_request exception_handler body app s))
                  = calls s @ evs @ [CallExceptionHandler exc]
              \<and> list_all strategy_call evs
              \<and> CallHandlerBody \<notin> set evs
              \<and> (\<forall>e. CallExceptionHandler e \<notin> set evs)))
   \<and> (perform_authentication app s = (Inl exc, s1) \<longrightarrow> initial app s = (Inl exc, s1))
   \<and> (perform_authentication app s = (Inr (), sa) \<longrightarrow> check_permissions app sa = (Inl exc, s1) \<longrightarrow>
        initial app s = (Inl exc, s1))
   \<and> (perform_authentication app s = (Inr (), sa) \<longrightarrow> check_permissions app sa = (Inr (), sb) \<longrightarrow>
        check_throttles app sb = (Inl exc, s1) \<longrightarrow> initial app s = (Inl exc, s1))"
proof (intro conjI impI)
  assume "initial app s = (Inl exc, s1)"
  from initial_raised_calls[OF this, of exception_handler body]
  show "fst (dispatch_request exception_handler body app s)
         = Inr ((case EXCEPTION_HANDLER app of Unset \<Rightarrow> exception_handler | Val h \<Rightarrow> h) exc)"
    and "\<exists>evs. calls (snd (dispatch_request exception_handler body app s))
                  = calls s @ evs @ [CallExceptionHandler exc]
              \<and> list_all strategy_call evs
              \<and> CallHandlerBody \<notin> set evs
              \<and> (\<forall>e. CallExceptionHandler e \<notin> set evs)"
    by simp_all
next
  assume "perform_authentication app s = (Inl exc, s1)"
  then show "initial app s = (Inl exc, s1)"
    by (simp add: initial_def)
next
  assume "perform_authentication app s = (Inr (), sa)" "check_permissions app sa = (Inl exc, s1)"
  then show "initial app s = (Inl exc, s1)"
    by (simp add: initial_def)
next
  assume "perform_authentication app s = (Inr (), sa)" "check_permissions app sa = (Inr (), sb)"
    "check_throttles app sb = (Inl exc, s1)"
  then show "initial app s = (Inl exc, s1)"
    by (simp add: initial_def)
qed

theorem dispatch_request_handles_errors_witness:
  "perform_authentication no_config malformed_request
     = (Inl (APIException (AuthenticationFailed ''malformed'') (Val (Some ''Bearer'')) :: nat exception),
        snd (perform_authentication no_config malformed_request))
   \<and> initial no_config malformed_request
       = (Inl (APIException (AuthenticationFailed ''malformed'') (Val (Some ''Bearer'')) :: nat exception),
          snd (perform_authentication no_config malformed_request))
   \<and> fst (dispatch_request builtin_handler ok_body no_config malformed_request)
       = Inr (''built-in'', (APIException (AuthenticationFailed ''malformed'') (Val (Some ''Bearer'')) :: nat exception))
   \<and> (\<exists>evs. calls (snd (dispatch_request builtin_handler ok_body no_config malformed_request))
                = calls malformed_request @ evs
                  @ [CallExceptionHandler (APIException (AuthenticationFailed ''malformed'') (Val (Some ''Bearer'')) :: nat exception)]
            \<and> list_all strategy_call evs
            \<and> CallHandlerBody \<notin> set evs
            \<and> (\<forall>e. CallExceptionHandler e \<notin> set evs))
   \<and> calls (snd (dispatch_request builtin_handler ok_body no_config malformed_request))
       = [CallAuthenticate MalformedAuth
            (Raises (APIException (AuthenticationFailed ''malformed'') Unset)),
          CallExceptionHandler (APIException (AuthenticationFailed ''malformed'') (Val (Some ''Bearer'')) :: nat exception)]
   \<and> perform_authentication no_config unauthenticated_denied = (Inr (), (snd (perform_authentication no_config unauthenticated_denied)))
   \<and> check_permissions no_config (snd (perform_authentication no_config unauthenticated_denied))
       = (Inl (APIException NotAuthenticated (Val (Some ''Basic realm=api'')) :: nat exception),
          (snd (check_permissions no_config (snd (perform_authentication no_config unauthenticated_denied)))))
   \<and> initial no_config unauthenticated_denied
       = (Inl (APIException NotAuthenticated (Val (Some ''Basic realm=api'')) :: nat exception),
          (snd (check_permissions no_config (snd (perform_authentication no_config unauthenticated_denied)))))
   \<and> perform_authentication custom_app throttled_request = (Inr (), (snd (perform_authentication custom_app throttled_request)))
   \<and> check_permissions custom_app (snd (perform_authentication custom_app throttled_request))
       = (Inr (), (snd (check_permissions custom_app (snd (perform_authentication custom_app throttled_request)))))
   \<and> check_throttles custom_app (snd (check_permissions custom_app (snd (perform_authentication custom_app throttled_request))))
       = (Inl (APIException (Throttled (Some 5)) Unset :: nat exception),
          (snd (check_throttles custom_app (snd (check_permissions custom_app (snd (perform_authentication custom_app throttled_request)))))))
   \<and> initial custom_app throttled_request
       = (Inl (APIException (Throttled (Some 5)) Unset :: nat exception),
          (snd (check_throttles custom_app (snd (check_permissions custom_app (snd (perform_authentication custom_app throttled_request)))))))
   \<and> fst (dispatch_request builtin_handler ok_body custom_app throttled_request)
       = Inr (''custom'', (APIException (Throttled (Some 5)) Unset :: nat exception))"
proof -
  have pa1: "perform_authentication no_config malformed_request
     = (Inl (APIException (AuthenticationFailed ''malformed'') (Val (Some ''Bearer'')) :: nat exception),
        snd (perform_authentication no_config malformed_request))"
    by (simp add: model_defs scenario_defs2)
  note t1 = dispatch_request_handles_errors
    [where app = no_config and s = malformed_request
       and exc = "(APIException (AuthenticationFailed ''malformed'') (Val (Some ''Bearer'')) :: nat exception)"
       and ?s1.0 = "snd (perform_authentication no_config malformed_request)"
       and exception_handler = builtin_handler and body = ok_body]
  from t1 pa1 have i1: "initial no_config malformed_request
       = (Inl (APIException (AuthenticationFailed ''malformed'') (Val (Some ''Bearer'')) :: nat exception),
          snd (perform_authentication no_config malformed_request))"
    by blast
  from t1 i1 have "fst (dispatch_request builtin_handler ok_body no_config malformed_request)
       = Inr ((case EXCEPTION_HANDLER no_config of Unset \<Rightarrow> builtin_handler | Val h \<Rightarrow> h)
                (APIException (AuthenticationFailed ''malformed'') (Val (Some ''Bearer'')) :: nat exception))"
    by blast
  then have d1: "fst (dispatch_request builtin_handler ok_body no_config malformed_request)
       = Inr (''built-in'', (APIException (AuthenticationFailed ''malformed'') (Val (Some ''Bearer'')) :: nat exception))"
    by (simp add: no_config_def builtin_handler_def)
  from t1 i1 have e1: "\<exists>evs. calls (snd (dispatch_request builtin_handler ok_body no_config malformed_request))
                = calls malformed_request @ evs
                  @ [CallExceptionHandler (APIException (AuthenticationFailed ''malformed'') (Val (Some ''Bearer'')) :: nat exception)]
            \<and> list_all strategy_call evs
            \<and> CallHandlerBody \<notin> set evs
            \<and> (\<forall>e. CallExceptionHandler e \<notin> set evs)"
    by blast
  have log1: "calls (snd (dispatch_request builtin_handler ok_body no_config malformed_request))
       = [CallAuthenticate MalformedAuth
            (Raises (APIException (AuthenticationFailed ''malformed'') Unset)),
          CallExceptionHandler (APIException (AuthenticationFailed ''malformed'') (Val (Some ''Bearer'')) :: nat exception)]"
    by (simp add: model_defs scenario_defs2)
  have pa2: "perform_authentication no_config unauthenticated_denied = (Inr (), (snd (perform_authentication no_config unauthenticated_denied)))"
    by (simp add: model_defs scenario_defs2)
  have cp2: "check_permissions no_config (snd (perform_authentication no_config unauthenticated_denied))
       = (Inl (APIException NotAuthenticated (Val (Some ''Basic realm=api'')) :: nat exception),
          (snd (check_permissions no_config (snd (perform_authentication no_config unauthenticated_denied)))))"
    by (simp add: model_defs scenario_defs2)
  note t2 = dispatch_request_handles_errors
    [where app = no_config and s = unauthenticated_denied
       and exc = "(APIException NotAuthenticated (Val (Some ''Basic realm=api'')) :: nat exception)"
       and sa = "(snd (perform_authentication no_config unauthenticated_denied))"
       and ?s1.0 = "(snd (check_permissions no_config (snd (perform_authentication no_config unauthenticated_denied))))"]
  from t2 pa2 cp2 have i2: "initial no_config unauthenticated_denied
       = (Inl (APIException NotAuthenticated (Val (Some ''Basic realm=api'')) :: nat exception),
          (snd (check_permissions no_config (snd (perform_authentication no_config unauthenticated_denied)))))"
    by blast
  have pa3: "perform_authentication custom_app throttled_request = (Inr (), (snd (perform_authentication custom_app throttled_request)))"
    by (simp add: model_defs scenario_defs2)
  have cp3: "check_permissions custom_app (snd (perform_authentication custom_app throttled_request))
       = (Inr (), (snd (check_permissions custom_app (snd (perform_authentication custom_app throttled_request)))))"
    by (simp add: model_defs scenario_defs2)
  have ct3: "check_throttles custom_app (snd (check_permissions custom_app (snd (perform_authentication custom_app throttled_request))))
       = (Inl (APIException (Throttled (Some 5)) Unset :: nat exception),
          (snd (check_throttles custom_app (snd (check_permissions custom_app (snd (perform_authentication custom_app throttled_request)))))))"
    by (simp add: model_defs scenario_defs2)
  note t3 = dispatch_request_handles_errors
    [where app = custom_app and s = throttled_request
       and exc = "(APIException (Throttled (Some 5)) Unset :: nat exception)"
       and sa = "(snd (perform_authentication custom_app throttled_request))"
       and sb = "(snd (check_permissions custom_app (snd (perform_authentication custom_app throttled_request))))"
       and ?s1.0 = "(snd (check_throttles custom_app (snd (check_permissions custom_app (snd (perform_authentication custom_app throttled_request))))))"
       and exception_handler = builtin_handler and body = ok_body]
  from t3 pa3 cp3 ct3 have i3: "initial custom_app throttled_request
       = (Inl (APIException (Throttled (Some 5)) Unset :: nat exception),
          (snd (check_throttles custom_app (snd (check_permissions custom_app (snd (perform_authentication custom_app throttled_request)))))))"
    by blast
  from t3 i3 have "fst (dispatch_request builtin_handler ok_body custom_app throttled_request)
       = Inr ((case EXCEPTION_HANDLER custom_app of Unset \<Rightarrow> builtin_handler | Val h \<Rightarrow> h)
                (APIException (Throttled (Some 5)) Unset :: nat exception))"
    by blast
  then have d3: "fst (dispatch_request builtin_handler ok_body custom_app throttled_request)
       = Inr (''custom'', (APIException (Throttled (Some 5)) Unset :: nat exception))"
    by (simp add: custom_app_def no_config_def custom_handler_def)
  from pa1 i1 d1 e1 log1 pa2 cp2 i2 pa3 cp3 ct3 i3 d3 show ?thesis
    by - (intro conjI; assumption)
qed

text \<open>
  Claim C6. For each of the three families the list a request uses is the view-level
  list when that is non-empty and the process-wide default when it is empty, never a
  mixture (for throttles: the handlers of that list, each instantiated with its rate).
  This holds in every state of the view object, so nothing is cached: after a whole
  request under one configuration, the getters under another configuration give the
  lists resolved from that other configuration.
\<close>

theorem policy_lists_resolved_per_request:
  "fst (get_authenticators app s)
     = resolved_policy (authentication_classes (self s)) (AUTHENTICATION_CLASSES app)
   \<and> get_permissions app s
       = resolved_policy (permission_classes (self s)) (PERMISSION_CLASSES app)
   \<and> get_throttles app s
       = get_throttles_loop
           (resolved_policy (throttle_handlers (self s)) (THROTTLE_HANDLERS app)) []
   \<and> ((\<forall>h\<in>set (resolved_policy (throttle_handlers (self s)) (THROTTLE_HANDLERS app)).
          throttle_class h \<noteq> None) \<longrightarrow>
        get_throttles app s
          = Inr (map (\<lambda>h. the (throttle_class h) (throttle_rate h))
                   (resolved_policy (throttle_handlers (self s)) (THROTTLE_HANDLERS app))))
   \<and> fst (get_authenticators app' (snd (dispatch_request exception_handler body app s)))
       = resolved_policy (authentication_classes (self s)) (AUTHENTICATION_CLASSES app')
   \<and> get_permissions app' (snd (dispatch_request exception_handler body app s))
       = resolved_policy (permission_classes (self s)) (PERMISSION_CLASSES app')
   \<and> get_throttles app' (snd (dispatch_request exception_handler body app s))
       = get_throttles_loop
           (resolved_policy (throttle_handlers (self s)) (THROTTLE_HANDLERS app')) []"
proof -
  have "(\<forall>h\<in>set (resolved_policy (throttle_handlers (self s)) (THROTTLE_HANDLERS app)).
          throttle_class h \<noteq> None) \<longrightarrow>
        get_throttles app s
          = Inr (map (\<lambda>h. the (throttle_class h) (throttle_rate h))
                   (resolved_policy (throttle_handlers (self s)) (THROTTLE_HANDLERS app)))"
    by (simp add: get_throttles_resolved get_throttles_loop_instantiates)
  then show ?thesis
    using dispatch_request_classes[of exception_handler body app s]
    by (simp add: get_authenticators_resolved get_permissions_resolved get_throttles_resolved)
qed

theorem policy_lists_resolved_per_request_witness:
  "list_all (\<lambda>h. throttle_class h \<noteq> None)
     (resolved_policy (throttle_handlers (self open_request)) (THROTTLE_HANDLERS defaults_one))
   \<and> get_throttles defaults_one open_request = Inr [DenyingThrottle 5 (Some ''1/s'')]
   \<and> fst (get_authenticators defaults_one open_request) = [FailingAuth]
   \<and> get_permissions defaults_one open_request = [AlwaysAllow]
   \<and> fst (get_authenticators defaults_two
            (snd (dispatch_request builtin_handler ok_body defaults_one open_request)))
       = [TokenAuth]
   \<and> get_permissions defaults_two
        (snd (dispatch_request builtin_handler ok_body defaults_one open_request))
       = [AlwaysDeny]
   \<and> get_throttles defaults_two
        (snd (dispatch_request builtin_handler ok_body defaults_one open_request))
       = Inr [AllowingThrottle None]
   \<and> fst (get_authenticators defaults_one overriding_request) = [TokenAuth]
   \<and> get_permissions defaults_one overriding_request = [AlwaysAllow]"
proof -
  have classes: "\<forall>h\<in>set (resolved_policy (throttle_handlers (self open_request))
                             (THROTTLE_HANDLERS defaults_one)). throttle_class h \<noteq> None"
    by (simp add: resolved_policy_def open_request_def new_request_def defaults_one_def
        app_config_def)
  then have classes': "list_all (\<lambda>h. throttle_class h \<noteq> None)
     (resolved_policy (throttle_handlers (self open_request)) (THROTTLE_HANDLERS defaults_one))"
    by (simp add: list_all_iff)
  note t1 = policy_lists_resolved_per_request
    [where app = defaults_one and s = open_request and app' = defaults_two
       and exception_handler = builtin_handler and body = ok_body]
  note t2 = policy_lists_resolved_per_request
    [where app = defaults_one and s = overriding_request and app' = defaults_two
       and exception_handler = builtin_handler and body = ok_body]
  from t1 classes have "get_throttles defaults_one open_request
          = Inr (map (\<lambda>h. the (throttle_class h) (throttle_rate h))
                   (resolved_policy (throttle_handlers (self open_request))
                      (THROTTLE_HANDLERS defaults_one)))"
    by blast
  then have a: "get_throttles defaults_one open_request = Inr [DenyingThrottle 5 (Some ''1/s'')]"
    by (simp add: resolved_policy_def open_request_def new_request_def defaults_one_def
        app_config_def)
  from t1 have b: "fst (get_authenticators defaults_one open_request) = [FailingAuth]"
    and c: "get_permissions defaults_one open_request = [AlwaysAllow]"
    and d: "fst (get_authenticators defaults_two
            (snd (dispatch_request builtin_handler ok_body defaults_one open_request)))
       = [TokenAuth]"
    and e: "get_permissions defaults_two
        (snd (dispatch_request builtin_handler ok_body defaults_one open_request))
       = [AlwaysDeny]"
    and f: "get_throttles defaults_two
        (snd (dispatch_request builtin_handler ok_body defaults_one open_request))
       = Inr [AllowingThrottle None]"
    by (simp_all add: resolved_policy_def open_request_def new_request_def defaults_one_def
        defaults_two_def app_config_def)
  from t2 have g: "fst (get_authenticators defaults_one overriding_request) = [TokenAuth]"
    and h: "get_permissions defaults_one overriding_request = [AlwaysAllow]"
    by (simp_all add: resolved_policy_def overriding_request_def new_request_def defaults_one_def
        app_config_def)
  from classes' a b c d e f g h show ?thesis
    by - (intro conjI; assumption)
qed

text \<open>
  Claim C5, as the code has it. The claim says that an empty view-level permission
  list wins over a denying process-wide default and the request proceeds. In the code
  an empty view-level list means that the default is used: in the scenario of the claim
  \<open>initial\<close> raises \<open>PermissionDenied\<close> and the handler body is not called.
\<close>

theorem empty_override_counterexample:
  "permission_classes (self open_request) = []
   \<and> PERMISSION_CLASSES deny_by_default = Val [AlwaysDeny]
   \<and> fst (initial deny_by_default open_request)
       = Inl (APIException (PermissionDenied (Some ''not allowed'') (Some ''permission_denied''))
                Unset)
   \<and> fst (dispatch_request builtin_handler ok_body deny_by_default open_request)
       = Inr (''built-in'',
              APIException (PermissionDenied (Some ''not allowed'') (Some ''permission_denied''))
                Unset)
   \<and> CallHandlerBody
       \<notin> set (calls (snd (dispatch_request builtin_handler ok_body deny_by_default open_request)))"
  by (simp add: model_defs scenario_defs2)

text \<open>
  Claim C5, amended. If the view-level permission list is empty and the process-wide
  default contains a permission that denies in every ambient state, the default is the
  list used, \<open>initial\<close> raises, and \<open>dispatch_request\<close> returns the exception
  handler's response without calling the handler body.
\<close>

theorem empty_override_uses_default:
  assumes "permission_classes (self s) = []"
    and "PERMISSION_CLASSES app = Val ps"
    and "p \<in> set ps"
    and "\<forall>w. \<not> fst (has_permission p w)"
  shows "get_permissions app s = ps
       \<and> (\<exists>exc evs. fst (initial app s) = Inl exc
             \<and> fst (dispatch_request exception_handler body app s)
                 = Inr ((case EXCEPTION_HANDLER app of Unset \<Rightarrow> exception_handler | Val h \<Rightarrow> h)
                          exc)
             \<and> calls (snd (dispatch_request exception_handler body app s))
                 = calls s @ evs @ [CallExceptionHandler exc]
             \<and> CallHandlerBody \<notin> set evs)"
proof -
  have ps: "get_permissions app s = ps"
    using assms(1,2) by (simp add: get_permissions_resolved resolved_policy_def)
  obtain r1 s1 where a: "perform_authentication app s = (r1, s1)"
    by (cases "perform_authentication app s")
  have "\<exists>exc s2. initial app s = (Inl exc, s2)"
  proof (cases r1)
    case (Inl exc)
    with a show ?thesis by (simp add: initial_def)
  next
    case (Inr u)
    from perform_authentication_attrs[OF a] assms(1,2)
    have ps1: "get_permissions app s1 = ps"
      by (simp add: get_permissions_resolved resolved_policy_def)
    obtain r2 s2 where b: "check_permissions app s1 = (r2, s2)"
      by (cases "check_permissions app s1")
    from check_permissions_loop_denying[OF assms(3,4), of s1] permission_denied_raises
    have "\<exists>exc. fst (check_permissions_loop ps s1) = Inl exc"
      by metis
    with b ps1 obtain exc where "r2 = Inl exc"
      by (auto simp: check_permissions_def)
    with a b Inr show ?thesis by (simp add: initial_def)
  qed
  then obtain exc s2 where i: "initial app s = (Inl exc, s2)"
    by blast
  from initial_raised_calls[OF i, of exception_handler body] i ps show ?thesis
    by auto
qed

theorem empty_override_uses_default_witness:
  "permission_classes (self open_request) = []
   \<and> PERMISSION_CLASSES deny_by_default = Val [AlwaysDeny]
   \<and> AlwaysDeny \<in> set [AlwaysDeny]
   \<and> (\<forall>w. \<not> fst (has_permission AlwaysDeny w))
   \<and> get_permissions deny_by_default open_request = [AlwaysDeny]
   \<and> (\<exists>exc evs. fst (initial deny_by_default open_request) = Inl exc
         \<and> fst (dispatch_request builtin_handler ok_body deny_by_default open_request)
             = Inr ((case EXCEPTION_HANDLER deny_by_default of
                       Unset \<Rightarrow> builtin_handler | Val h \<Rightarrow> h) exc)
         \<and> calls (snd (dispatch_request builtin_handler ok_body deny_by_default open_request))
             = calls open_request @ evs @ [CallExceptionHandler exc]
         \<and> CallHandlerBody \<notin> set evs)"
proof -
  have a: "permission_classes (self open_request) = []"
    by (simp add: open_request_def new_request_def)
  have b: "PERMISSION_CLASSES deny_by_default = Val [AlwaysDeny]"
    by (simp add: deny_by_default_def app_config_def)
  have c: "AlwaysDeny \<in> set [AlwaysDeny]"
    by simp
  have d: "\<forall>w. \<not> fst (has_permission AlwaysDeny w)"
    by (simp add: AlwaysDeny_def)
  note concl = empty_override_uses_default[OF a b c d, of builtin_handler ok_body]
  from concl[THEN conjunct1] concl[THEN conjunct2] a b c d
  show ?thesis by - (intro conjI; assumption)
qed

end
